theory Spec2Isabelle
  imports Main "HOL-Library.Word"
begin

section \<open>Python strings\<close>

text \<open>
  A Python \<open>str\<close> is modelled as a \<open>string\<close>: a list of characters, each a code point
  below 256. Integers are Python's unbounded \<open>int\<close>.
\<close>

definition is_space :: "char \<Rightarrow> bool" where
  \<comment> \<open>\<open>str.isspace\<close> on one character: TAB..CR, FS..US, space, NEL and NBSP.\<close>
  "is_space c =
     (let n = (of_char c :: nat)
      in (9 \<le> n \<and> n \<le> 13) \<or> (28 \<le> n \<and> n \<le> 32) \<or> n = 133 \<or> n = 160)"

fun split_ws_from :: "string \<Rightarrow> string \<Rightarrow> string list" where
  \<comment> \<open>The scan of \<open>str.split()\<close>: \<open>cur\<close> is the word being read.\<close>
  "split_ws_from cur [] = (if cur = [] then [] else [cur])"
| "split_ws_from cur (c # cs) =
     (if is_space c then (if cur = [] then [] else [cur]) @ split_ws_from [] cs
      else split_ws_from (cur @ [c]) cs)"

definition split_ws :: "string \<Rightarrow> string list" where
  \<comment> \<open>\<open>s.split()\<close>: the maximal runs of characters that are not whitespace.\<close>
  "split_ws s = split_ws_from [] s"

fun split_on :: "char \<Rightarrow> string \<Rightarrow> string list" where
  \<comment> \<open>\<open>s.split(sep)\<close> for a separator of one character; never empty.\<close>
  "split_on sep [] = [[]]"
| "split_on sep (c # cs) =
     (if c = sep then [] # split_on sep cs
      else (case split_on sep cs of
              [] \<Rightarrow> [[c]]
            | l # ls \<Rightarrow> (c # l) # ls))"

fun join_sp :: "string list \<Rightarrow> string" where
  \<comment> \<open>\<open>' '.join(ws)\<close>\<close>
  "join_sp [] = []"
| "join_sp [w] = w"
| "join_sp (w # v # ws) = w @ '' '' @ join_sp (v # ws)"

definition replace_char :: "char \<Rightarrow> string \<Rightarrow> string \<Rightarrow> string" where
  \<comment> \<open>\<open>s.replace(old, new)\<close> for \<open>old\<close> of one character.\<close>
  "replace_char old new s = concat (map (\<lambda>c. if c = old then new else [c]) s)"

fun digits :: "nat \<Rightarrow> string" where
  "digits n =
     (if n < 10 then [''0123456789'' ! n]
      else digits (n div 10) @ [''0123456789'' ! (n mod 10)])"

declare digits.simps [simp del]

definition str :: "int \<Rightarrow> string" where
  \<comment> \<open>\<open>str(n)\<close> of an \<open>int\<close>\<close>
  "str i = (if i < 0 then CHR ''-'' # digits (nat (- i)) else digits (nat i))"

definition lower_char :: "char \<Rightarrow> char" where
  "lower_char c =
     (let n = (of_char c :: nat)
      in if (65 \<le> n \<and> n \<le> 90) \<or> (192 \<le> n \<and> n \<le> 222 \<and> n \<noteq> 215)
         then char_of (n + 32) else c)"

definition lower :: "string \<Rightarrow> string" where
  \<comment> \<open>\<open>s.lower()\<close>\<close>
  "lower s = map lower_char s"

definition newline :: char where
  "newline = CHR 0x0A"


section \<open>The imaging library\<close>

text \<open>
  The source draws with Pillow. An image is its size and its pixels, every pixel four
  bytes (red, green, blue, alpha); every image of the source is in mode RGBA. The
  operations whose result is fixed by a few lines of arithmetic (a new image, the alpha
  composite, a lookup table on the alpha band) are defined here as Pillow computes
  them. The others (resampling, pasting through a mask, rasterising text, measuring
  text, decoding a file, loading a font) are parameters of the model: the fields of the
  records \<open>pil\<close> and \<open>host\<close>. The pixels they compute are left open; when they raise is
  not. The release the repository pins (Pillow 10.0.1) raises \<open>ValueError\<close> from \<open>Image.new\<close>
  on a negative side, from \<open>resize\<close> on a side below 1 (an image that already has the
  requested size is copied before that check), from \<open>ImageDraw.rectangle\<close> on a box whose
  second corner lies left of or above the first, and from \<open>alpha_composite\<close> on images of
  different sizes. These are values of type \<open>exn\<close>, as are the exceptions that the source
  handles. Pasting, measuring and rasterising text are taken to return.
\<close>

datatype exn = OSError | ValueError | KeyError | OtherError

type_synonym rgba = "8 word \<times> 8 word \<times> 8 word \<times> 8 word"

record image =
  isize :: "int \<times> int"
  pixel :: "int \<times> int \<Rightarrow> rgba"

datatype resampling = LANCZOS | BILINEAR

datatype font = FreeTypeFont string int | DefaultFont

definition new_image :: "int \<times> int \<Rightarrow> rgba \<Rightarrow> image" where
  \<comment> \<open>\<open>Image.new("RGBA", size, color)\<close>\<close>
  "new_image sz c = \<lparr>isize = sz, pixel = (\<lambda>_. c)\<rparr>"

definition image_new :: "int \<times> int \<Rightarrow> rgba \<Rightarrow> exn + image" where
  \<comment> \<open>\<open>Image.new("RGBA", size, color)\<close> with its size check: both sides at least 0.\<close>
  "image_new sz c = (if fst sz < 0 \<or> snd sz < 0 then Inl ValueError else Inr (new_image sz c))"

definition shift_div255 :: "nat \<Rightarrow> nat" where
  "shift_div255 a = (a div 256 + a) div 256"

definition over :: "rgba \<Rightarrow> rgba \<Rightarrow> rgba" where
  \<comment> \<open>One pixel of \<open>Image.alpha_composite\<close>: the source pixel over the destination pixel,
      in Pillow's integer arithmetic with seven extra bits of precision.\<close>
  "over dst src =
     (case dst of (dr, dg, db, da) \<Rightarrow>
      case src of (sr, sg, sb, sa) \<Rightarrow>
        if sa = 0 then dst
        else
          let blend = unat da * (255 - unat sa);
              outa255 = unat sa * 255 + blend;
              coef1 = unat sa * 255 * 255 * 128 div outa255;
              coef2 = 255 * 128 - coef1;
              ch = (\<lambda>s d. of_nat (shift_div255 (unat s * coef1 + unat d * coef2 + 128 * 128) div 128))
          in (ch sr dr, ch sg dg, ch sb db, of_nat (shift_div255 (outa255 + 128))))"

definition alpha_composite :: "image \<Rightarrow> image \<Rightarrow> exn + image" where
  \<comment> \<open>\<open>Image.alpha_composite(dst, src)\<close>; images of different sizes are a ValueError.\<close>
  "alpha_composite dst src =
     (if isize dst = isize src
      then Inr (dst\<lparr>pixel := (\<lambda>p. over (pixel dst p) (pixel src p))\<rparr>)
      else Inl ValueError)"

definition clip8 :: "int \<Rightarrow> 8 word" where
  "clip8 v = (if v \<le> 0 then 0 else if 255 \<le> v then 255 else word_of_int v)"

record pil =
  pct_of :: "int \<Rightarrow> int \<Rightarrow> int"
    \<comment> \<open>\<open>int(x * (p / 100.0))\<close>, computed in double precision\<close>
  resize_px :: "image \<Rightarrow> int \<times> int \<Rightarrow> resampling \<Rightarrow> int \<times> int \<Rightarrow> rgba"
  paste_px :: "image \<Rightarrow> image \<Rightarrow> int \<times> int \<Rightarrow> image \<Rightarrow> int \<times> int \<Rightarrow> rgba"
  textbbox :: "font \<Rightarrow> string \<Rightarrow> int \<times> int \<times> int \<times> int"
    \<comment> \<open>\<open>draw.textbbox((0, 0), text, font=font)\<close>: left, top, right, bottom\<close>
  text_px :: "image \<Rightarrow> int \<times> int \<Rightarrow> string \<Rightarrow> font \<Rightarrow> rgba \<Rightarrow> int \<Rightarrow> rgba \<Rightarrow> int \<times> int \<Rightarrow> rgba"
  rectangle_px :: "image \<Rightarrow> int \<times> int \<times> int \<times> int \<Rightarrow> rgba \<Rightarrow> int \<times> int \<Rightarrow> rgba"
  thumbnail :: "image \<Rightarrow> int \<times> int \<Rightarrow> resampling \<Rightarrow> image"
    \<comment> \<open>\<open>image.thumbnail(size, resample)\<close>, the image it leaves\<close>

definition resize :: "pil \<Rightarrow> image \<Rightarrow> int \<times> int \<Rightarrow> resampling \<Rightarrow> exn + image" where
  \<comment> \<open>\<open>im.resize(size, resample)\<close>: the copy of an image that has the size already, a
      \<open>ValueError\<close> for a side below 1, a new image of the requested size otherwise.\<close>
  "resize lib im sz rs =
     (if isize im = sz then Inr im
      else if fst sz < 1 \<or> snd sz < 1 then Inl ValueError
      else Inr \<lparr>isize = sz, pixel = resize_px lib im sz rs\<rparr>)"

definition paste :: "pil \<Rightarrow> image \<Rightarrow> image \<Rightarrow> int \<times> int \<Rightarrow> image \<Rightarrow> image" where
  \<comment> \<open>\<open>dst.paste(src, pos, mask)\<close>: in place, the size of \<open>dst\<close> stays.\<close>
  "paste lib dst src pos msk = dst\<lparr>pixel := paste_px lib dst src pos msk\<rparr>"

definition draw_text ::
  "pil \<Rightarrow> image \<Rightarrow> int \<times> int \<Rightarrow> string \<Rightarrow> font \<Rightarrow> rgba \<Rightarrow> int \<Rightarrow> rgba \<Rightarrow> image" where
  \<comment> \<open>\<open>draw.text(pos, line, font=, fill=, stroke_width=, stroke_fill=)\<close> on the image of \<open>draw\<close>\<close>
  "draw_text lib img pos line fnt fill sw sf = img\<lparr>pixel := text_px lib img pos line fnt fill sw sf\<rparr>"

definition draw_rectangle ::
  "pil \<Rightarrow> image \<Rightarrow> int \<times> int \<times> int \<times> int \<Rightarrow> rgba \<Rightarrow> exn + image" where
  \<comment> \<open>\<open>draw.rectangle([x0, y0, x1, y1], fill=)\<close> on the image of \<open>draw\<close>: a \<open>ValueError\<close>
      when \<open>x1 < x0\<close> or \<open>y1 < y0\<close>.\<close>
  "draw_rectangle lib img box fill =
     (case box of
        (x0, y0, x1, y1) \<Rightarrow>
          if x1 < x0 \<or> y1 < y0 then Inl ValueError
          else Inr (img\<lparr>pixel := rectangle_px lib img box fill\<rparr>))"

definition text_width :: "pil \<Rightarrow> font \<Rightarrow> string \<Rightarrow> int" where
  \<comment> \<open>\<open>right - left\<close> of the bounding box\<close>
  "text_width lib fnt s = (case textbbox lib fnt s of (x0, y0, x1, y1) \<Rightarrow> x1 - x0)"

definition scale_alpha :: "pil \<Rightarrow> int \<Rightarrow> image \<Rightarrow> image" where
  \<comment> \<open>\<open>split\<close>, \<open>a.point(lambda i: int(i * opacity_factor))\<close>, \<open>merge\<close>:
      the lookup table of \<open>point\<close> holds bytes.\<close>
  "scale_alpha lib opacity im =
     im\<lparr>pixel := (\<lambda>p. case pixel im p of (r, g, b, a) \<Rightarrow> (r, g, b, clip8 (pct_of lib (uint a) opacity)))\<rparr>"

definition tint :: "rgba \<Rightarrow> image \<Rightarrow> image" where
  \<comment> \<open>A new image of the colour's red, green and blue, with \<open>putalpha\<close> of the old alpha band.\<close>
  "tint c im =
     \<lparr>isize = isize im,
      pixel = (\<lambda>p. case c of (tr, tg, tb, ta) \<Rightarrow> case pixel im p of (r, g, b, a) \<Rightarrow> (tr, tg, tb, a))\<rparr>"


section \<open>The resource manager\<close>

text \<open>
  \<open>resources/resource_manager.py\<close>. The host is what the program finds around it: the
  files of the asset directories, what Pillow makes of them, the fonts \<open>ImageFont.truetype\<close>
  can load and the platform name. The dictionaries \<open>_images\<close> and \<open>_fonts\<close> keep the
  order of insertion, so they are association lists, the oldest entry first. The
  decorator \<open>lru_cache\<close> of \<open>get_image\<close> and \<open>get_pil_font\<close> is a second table in front of
  each method, the least recently used entry first.
\<close>

record host =
  base_path :: string
  path_exists :: "string \<Rightarrow> bool"
  open_rgba :: "string \<Rightarrow> exn + image"
    \<comment> \<open>\<open>Image.open(path).convert("RGBA")\<close>\<close>
  truetype :: "string \<Rightarrow> int \<Rightarrow> exn + font"
    \<comment> \<open>\<open>ImageFont.truetype(name_or_path, size)\<close>\<close>
  platform_system :: string
    \<comment> \<open>\<open>platform.system()\<close>\<close>

record resources =
  images :: "(string \<times> image) list"
  fonts :: "(string \<times> font) list"
  font_paths :: "(string \<times> string) list"
  image_memo :: "((string \<times> string) \<times> image option) list"
  font_memo :: "((string \<times> int) \<times> font) list"

definition new_resources :: "(string \<times> string) list \<Rightarrow> resources" where
  \<comment> \<open>\<open>__init__\<close>: empty caches, and the font paths that the scan of the font directory found.\<close>
  "new_resources scanned =
     \<lparr>images = [], fonts = [], font_paths = scanned, image_memo = [], font_memo = []\<rparr>"

definition paths :: "host \<Rightarrow> (string \<times> string) list" where
  "paths h =
     [(''backgrounds'', base_path h @ ''/static/backgrounds''),
      (''patterns'', base_path h @ ''/static/patterns''),
      (''fonts'', base_path h @ ''/static/fonts'')]"

definition lru_hit :: "'k \<Rightarrow> ('k \<times> 'v) list \<Rightarrow> ('k \<times> 'v) list" where
  \<comment> \<open>A hit makes the entry the most recently used.\<close>
  "lru_hit k memo = filter (\<lambda>e. fst e \<noteq> k) memo @ filter (\<lambda>e. fst e = k) memo"

definition lru_store :: "nat \<Rightarrow> 'k \<Rightarrow> 'v \<Rightarrow> ('k \<times> 'v) list \<Rightarrow> ('k \<times> 'v) list" where
  \<comment> \<open>A miss stores the result; a full table gives up its least recently used entry.\<close>
  "lru_store maxsize k v memo = (if maxsize \<le> length memo then tl memo else memo) @ [(k, v)]"

definition optimize :: "pil \<Rightarrow> image \<Rightarrow> image" where
  \<comment> \<open>\<open>max_size = 2048\<close>; the thumbnail is taken when a side is longer.\<close>
  "optimize lib im =
     (let max_size = 2048
      in if fst (isize im) > max_size \<or> snd (isize im) > max_size
         then thumbnail lib im (max_size, max_size) LANCZOS
         else im)"

fun load_image :: "pil \<Rightarrow> host \<Rightarrow> string \<Rightarrow> string \<Rightarrow> string \<Rightarrow> string list \<Rightarrow> exn + image option" where
  \<comment> \<open>The loop over the extensions: the first file that exists is opened.\<close>
  "load_image lib h image_type directory name [] = Inr None"
| "load_image lib h image_type directory name (ext # exts) =
     (let file_path = directory @ ''/'' @ name @ ext
      in if path_exists h file_path
         then (case open_rgba h file_path of
                 Inl e \<Rightarrow> Inl e
               | Inr im \<Rightarrow>
                   Inr (Some (if image_type = ''background'' then optimize lib im else im)))
         else load_image lib h image_type directory name exts)"

definition get_image_body :: "pil \<Rightarrow> host \<Rightarrow> resources \<Rightarrow> string \<Rightarrow> string \<Rightarrow> image option \<times> resources" where
  "get_image_body lib h rs name image_type =
     (if name = [] \<or> name = ''None'' then (None, rs)
      else
        let cache_key = image_type @ ''_'' @ name
        in case map_of (images rs) cache_key of
             Some im \<Rightarrow> (Some im, rs)
           | None \<Rightarrow>
               (case (case map_of (paths h) (image_type @ ''s'') of
                        None \<Rightarrow> Inl KeyError
                      | Some directory \<Rightarrow>
                          load_image lib h image_type directory name
                            [''.png'', ''.jpg'', ''.jpeg'', ''.gif'']) of
                  Inl e \<Rightarrow> (None, rs)
                | Inr None \<Rightarrow> (None, rs)
                | Inr (Some im) \<Rightarrow>
                    (Some im, rs\<lparr>images := images rs @ [(cache_key, im)]\<rparr>)))"

definition get_image :: "pil \<Rightarrow> host \<Rightarrow> resources \<Rightarrow> string \<Rightarrow> string \<Rightarrow> image option \<times> resources" where
  \<comment> \<open>\<open>@lru_cache(maxsize=64)\<close> around the body\<close>
  "get_image lib h rs name image_type =
     (case map_of (image_memo rs) (name, image_type) of
        Some r \<Rightarrow> (r, rs\<lparr>image_memo := lru_hit (name, image_type) (image_memo rs)\<rparr>)
      | None \<Rightarrow>
          (case get_image_body lib h rs name image_type of
             (r, rs') \<Rightarrow>
               (r, rs'\<lparr>image_memo := lru_store 64 (name, image_type) r (image_memo rs')\<rparr>)))"

definition get_background_image :: "pil \<Rightarrow> host \<Rightarrow> resources \<Rightarrow> string \<Rightarrow> image option \<times> resources" where
  "get_background_image lib h rs name = get_image lib h rs name ''background''"

definition get_pattern_image :: "pil \<Rightarrow> host \<Rightarrow> resources \<Rightarrow> string \<Rightarrow> image option \<times> resources" where
  "get_pattern_image lib h rs name = get_image lib h rs name ''pattern''"

definition get_platform_fallbacks :: "string \<Rightarrow> string \<Rightarrow> string list" where
  "get_platform_fallbacks system font_name =
     (if system = ''windows'' then
        (let fallbacks =
               [''arial.ttf'', ''calibri.ttf'', ''segoeui.ttf'', ''tahoma.ttf'',
                ''C:/Windows/Fonts/arial.ttf'', ''C:/Windows/Fonts/calibri.ttf'']
         in if lower font_name = ''impact''
            then ''C:/Windows/Fonts/impact.ttf'' # ''impact.ttf'' # fallbacks
            else fallbacks)
      else if system = ''darwin'' then
        (let fallbacks =
               [''Arial.ttc'', ''Helvetica.ttc'', ''Arial.ttf'',
                ''/System/Library/Fonts/Arial.ttf'',
                ''/System/Library/Fonts/Helvetica.ttc'']
         in if lower font_name = ''impact''
            then ''Impact.ttf'' # fallbacks
            else fallbacks)
      else
        [''DejaVuSans.ttf'', ''liberation-sans.ttf'', ''Ubuntu-R.ttf'',
         ''/usr/share/fonts/truetype/dejavu/DejaVuSans.ttf'',
         ''/usr/share/fonts/truetype/liberation/LiberationSans-Regular.ttf''])"

fun try_fallbacks :: "host \<Rightarrow> int \<Rightarrow> string list \<Rightarrow> exn + font" where
  \<comment> \<open>The loop over the fallbacks: an OSError goes on to the next, the default font ends it.\<close>
  "try_fallbacks h sz [] = Inr DefaultFont"
| "try_fallbacks h sz (fallback # fallbacks) =
     (case truetype h fallback sz of
        Inr fnt \<Rightarrow> Inr fnt
      | Inl OSError \<Rightarrow> try_fallbacks h sz fallbacks
      | Inl e \<Rightarrow> Inl e)"

definition get_system_font :: "host \<Rightarrow> string \<Rightarrow> int \<Rightarrow> exn + font" where
  "get_system_font h font_name sz =
     (case truetype h font_name sz of
        Inr fnt \<Rightarrow> Inr fnt
      | Inl OSError \<Rightarrow>
          try_fallbacks h sz (get_platform_fallbacks (lower (platform_system h)) font_name)
      | Inl e \<Rightarrow> Inl e)"

definition load_font :: "host \<Rightarrow> resources \<Rightarrow> string \<Rightarrow> int \<Rightarrow> exn + font" where
  \<comment> \<open>The \<open>try\<close> block of \<open>get_pil_font\<close>.\<close>
  "load_font h rs font_name sz =
     (case map_of (font_paths rs) font_name of
        Some path \<Rightarrow> truetype h path sz
      | None \<Rightarrow> get_system_font h font_name sz)"

definition get_pil_font_body :: "host \<Rightarrow> resources \<Rightarrow> string \<Rightarrow> int \<Rightarrow> font \<times> resources" where
  \<comment> \<open>The handler \<open>except Exception\<close> takes the default font, so no exception leaves the body.\<close>
  "get_pil_font_body h rs font_name sz =
     (let cache_key = font_name @ ''_'' @ str sz
      in case map_of (fonts rs) cache_key of
           Some fnt \<Rightarrow> (fnt, rs)
         | None \<Rightarrow>
             (let fnt = (case load_font h rs font_name sz of
                           Inr f \<Rightarrow> f
                         | Inl e \<Rightarrow> DefaultFont);
                  stored = fonts rs @ [(cache_key, fnt)]
              in (fnt, rs\<lparr>fonts := (if length stored > 150 then drop 50 stored else stored)\<rparr>)))"

definition get_pil_font :: "host \<Rightarrow> resources \<Rightarrow> string \<Rightarrow> int \<Rightarrow> font \<times> resources" where
  \<comment> \<open>\<open>@lru_cache(maxsize=128)\<close> around the body\<close>
  "get_pil_font h rs font_name sz =
     (case map_of (font_memo rs) (font_name, sz) of
        Some fnt \<Rightarrow> (fnt, rs\<lparr>font_memo := lru_hit (font_name, sz) (font_memo rs)\<rparr>)
      | None \<Rightarrow>
          (case get_pil_font_body h rs font_name sz of
             (fnt, rs') \<Rightarrow>
               (fnt, rs'\<lparr>font_memo := lru_store 128 (font_name, sz) fnt (font_memo rs')\<rparr>)))"

definition refresh_resources :: "resources \<Rightarrow> (string \<times> string) list \<Rightarrow> resources" where
  \<comment> \<open>\<open>refresh_resources\<close>: \<open>_images\<close> and \<open>_fonts\<close> are cleared, the scan stores the font
      paths it finds over the old ones, and the \<open>lru_cache\<close> tables of \<open>get_image\<close> and
      \<open>get_pil_font\<close> are cleared (that of \<open>_get_platform_fallbacks\<close>, a function of its
      arguments, is not a part of the state here). Nothing else is cleared.\<close>
  "refresh_resources rs scanned =
     rs\<lparr>images := [], fonts := [], font_paths := scanned @ font_paths rs,
        image_memo := [], font_memo := []\<rparr>"


section \<open>The thumbnail generator\<close>

text \<open>
  \<open>core/thumbnail.py\<close>. The generator is its settings. The line spacing factor is held
  as the whole percentage \<open>p\<close> of the form, the float of the source being \<open>p / 100.0\<close>
  (the default \<open>0.3\<close> is \<open>30 / 100.0\<close>); the scales and opacities are whole percentages
  in the source too. A colour is a tuple of four bytes.

  What a render call reads and leaves behind is a \<open>session\<close>: the resource manager of
  the generator, and the table of the \<open>lru_cache\<close> in front of \<open>_wrap_text\<close>, the least
  recently used entry first.
\<close>

record generator =
  background_image :: "image option"
  background_color :: rgba
  background_opacity :: int
  bg_image_scale :: int
  bg_image_x_offset :: int
  bg_image_y_offset :: int
  current_pattern :: "image option"
  pattern_opacity :: int
  pattern_scale :: int
  pattern_x_offset :: int
  pattern_y_offset :: int
  pattern_color :: rgba
  pattern_color_enabled :: bool
  text_color :: rgba
  text_alignment :: string
  text_margins :: int
  text_x_offset :: int
  text_y_offset :: int
  line_spacing_factor :: int
  text_stroke_width :: int
  text_stroke_color :: rgba
  text_box_enabled :: bool
  text_box_color :: rgba
  text_box_padding :: int
  font_name :: string
  font_size :: int
  filename_base :: string

record session =
  manager :: resources
  wrap_memo :: "((string \<times> string \<times> int \<times> int) \<times> string list) list"

definition new_session :: "(string \<times> string) list \<Rightarrow> session" where
  \<comment> \<open>A new manager and a generator that has not wrapped any text yet.\<close>
  "new_session scanned = \<lparr>manager = new_resources scanned, wrap_memo = []\<rparr>"

definition refresh :: "session \<Rightarrow> (string \<times> string) list \<Rightarrow> session" where
  \<comment> \<open>\<open>generator.resources.refresh_resources()\<close>: the table of \<open>_wrap_text\<close> is not among
      the caches that the method clears.\<close>
  "refresh ss scanned = ss\<lparr>manager := refresh_resources (manager ss) scanned\<rparr>"

definition initialize_defaults :: generator where
  "initialize_defaults =
     \<lparr>background_image = None,
      background_color = (215, 63, 9, 255),
      background_opacity = 100,
      bg_image_scale = 100,
      bg_image_x_offset = 0,
      bg_image_y_offset = 0,
      current_pattern = None,
      pattern_opacity = 100,
      pattern_scale = 40,
      pattern_x_offset = 0,
      pattern_y_offset = 0,
      pattern_color = (255, 255, 255, 255),
      pattern_color_enabled = False,
      text_color = (255, 255, 255, 255),
      text_alignment = ''center'',
      text_margins = 100,
      text_x_offset = 0,
      text_y_offset = 0,
      line_spacing_factor = 30,
      text_stroke_width = 0,
      text_stroke_color = (0, 0, 0, 255),
      text_box_enabled = False,
      text_box_color = (0, 0, 0, 255),
      text_box_padding = 20,
      font_name = ''Arial'',
      font_size = 100,
      filename_base = ''output''\<rparr>"

definition opaque :: "rgba \<Rightarrow> rgba" where
  \<comment> \<open>\<open>color[:3] + (255,)\<close>\<close>
  "opaque c = (case c of (r, g, b, a) \<Rightarrow> (r, g, b, 255))"

definition transparent :: rgba where
  "transparent = (0, 0, 0, 0)"

subsection \<open>Wrapping\<close>

fun wrap_words ::
  "(string \<Rightarrow> int) \<Rightarrow> int \<Rightarrow> string list \<Rightarrow> string list \<Rightarrow> string list \<Rightarrow> string list \<times> string list" where
  \<comment> \<open>The loop over the words of one line: the lines made so far, and the line being filled.\<close>
  "wrap_words tw max_width processed_lines current_line [] = (processed_lines, current_line)"
| "wrap_words tw max_width processed_lines current_line (word # ws) =
     (let test_line = current_line @ [word];
          test_text = join_sp test_line;
          text_width = tw test_text
      in if text_width > max_width \<and> current_line \<noteq> []
         then wrap_words tw max_width (processed_lines @ [join_sp current_line]) [word] ws
         else wrap_words tw max_width processed_lines test_line ws)"

fun wrap_lines :: "(string \<Rightarrow> int) \<Rightarrow> int \<Rightarrow> string list \<Rightarrow> string list \<Rightarrow> string list" where
  \<comment> \<open>The loop over the lines of the text.\<close>
  "wrap_lines tw max_width processed_lines [] = processed_lines"
| "wrap_lines tw max_width processed_lines (line # ls) =
     (case wrap_words tw max_width processed_lines [] (split_ws line) of
        (processed, current_line) \<Rightarrow>
          wrap_lines tw max_width
            (if current_line \<noteq> [] then processed @ [join_sp current_line] else processed) ls)"

definition wrap_text_body ::
  "pil \<Rightarrow> host \<Rightarrow> resources \<Rightarrow> string \<Rightarrow> string \<Rightarrow> int \<Rightarrow> int \<Rightarrow> string list \<times> resources" where
  \<comment> \<open>The body of \<open>_wrap_text\<close>: the font is resolved, the lines are measured in it.\<close>
  "wrap_text_body lib h rs text fname fsize max_width =
     (case get_pil_font h rs fname fsize of
        (fnt, rs') \<Rightarrow>
          (wrap_lines (text_width lib fnt) max_width [] (split_on newline text), rs'))"

definition wrap_text ::
  "pil \<Rightarrow> host \<Rightarrow> session \<Rightarrow> string \<Rightarrow> string \<Rightarrow> int \<Rightarrow> int \<Rightarrow> string list \<times> session" where
  \<comment> \<open>\<open>@lru_cache(maxsize=128)\<close> around the body: for arguments it holds, the table answers
      and the body does not run.\<close>
  "wrap_text lib h ss text fname fsize max_width =
     (case map_of (wrap_memo ss) (text, fname, fsize, max_width) of
        Some lines \<Rightarrow>
          (lines, ss\<lparr>wrap_memo := lru_hit (text, fname, fsize, max_width) (wrap_memo ss)\<rparr>)
      | None \<Rightarrow>
          (case wrap_text_body lib h (manager ss) text fname fsize max_width of
             (lines, rs') \<Rightarrow>
               (lines,
                \<lparr>manager = rs',
                 wrap_memo = lru_store 128 (text, fname, fsize, max_width) lines (wrap_memo ss)\<rparr>)))"

subsection \<open>Layers\<close>

definition add_background_color :: "generator \<Rightarrow> image \<Rightarrow> int \<Rightarrow> int \<Rightarrow> exn + image" where
  \<comment> \<open>The size check of this \<open>Image.new\<close> has passed already: \<open>generate_thumbnail\<close> made
      the canvas \<open>img\<close> with the same width and height.\<close>
  "add_background_color g img width height =
     (let bg_color_img = new_image (width, height) (opaque (background_color g))
      in alpha_composite img bg_color_img)"

definition add_background_image :: "pil \<Rightarrow> generator \<Rightarrow> image \<Rightarrow> int \<Rightarrow> int \<Rightarrow> exn + image" where
  "add_background_image lib g img width height =
     (case background_image g of
        None \<Rightarrow> Inr img
      | Some bg \<Rightarrow>
          (let bg_width = pct_of lib width (bg_image_scale g);
               bg_height = pct_of lib height (bg_image_scale g);
               resample = (if bg_image_scale g < 100 then LANCZOS else BILINEAR)
           in case resize lib bg (bg_width, bg_height) resample of
                Inl e \<Rightarrow> Inl e
              | Inr resized_bg \<Rightarrow>
            case image_new (width, height) transparent of
                Inl e \<Rightarrow> Inl e
              | Inr blank \<Rightarrow>
                  (let x_pos = (width - bg_width) div 2 + bg_image_x_offset g;
                       y_pos = (height - bg_height) div 2 + bg_image_y_offset g;
                       bg_canvas = paste lib blank resized_bg (x_pos, y_pos) resized_bg;
                       bg_canvas' = (if background_opacity g < 100
                                     then scale_alpha lib (background_opacity g) bg_canvas
                                     else bg_canvas)
                   in alpha_composite img bg_canvas')))"

definition add_pattern :: "pil \<Rightarrow> generator \<Rightarrow> image \<Rightarrow> int \<Rightarrow> int \<Rightarrow> exn + image" where
  \<comment> \<open>\<open>scale_factor != 1.0\<close> is \<open>pattern_scale != 100\<close>. The pattern is resized before anything
      is done with the opacity.\<close>
  "add_pattern lib g img width height =
     (case current_pattern g of
        None \<Rightarrow> Inr img
      | Some pat \<Rightarrow>
          (let orig_width = fst (isize pat);
               orig_height = snd (isize pat);
               new_width = (if pattern_scale g \<noteq> 100 then pct_of lib orig_width (pattern_scale g) else orig_width);
               new_height = (if pattern_scale g \<noteq> 100 then pct_of lib orig_height (pattern_scale g) else orig_height);
               resample = (if pattern_scale g < 100 then LANCZOS else BILINEAR)
           in case (if pattern_scale g \<noteq> 100 then resize lib pat (new_width, new_height) resample
                    else Inr pat) of
                Inl e \<Rightarrow> Inl e
              | Inr pattern \<Rightarrow>
            case image_new (width, height) transparent of
                Inl e \<Rightarrow> Inl e
              | Inr blank \<Rightarrow>
                  (let x_pos = (width - new_width) div 2 + pattern_x_offset g;
                       y_pos = (height - new_height) div 2 + pattern_y_offset g;
                       pattern_canvas = paste lib blank pattern (x_pos, y_pos) pattern;
                       tinted = (if pattern_color_enabled g then tint (pattern_color g) pattern_canvas
                                 else pattern_canvas);
                       faded = (if pattern_opacity g < 100 then scale_alpha lib (pattern_opacity g) tinted
                                else tinted)
                   in alpha_composite img faded)))"

definition calculate_text_x_position ::
  "pil \<Rightarrow> generator \<Rightarrow> string \<Rightarrow> font \<Rightarrow> int \<Rightarrow> string option \<Rightarrow> int" where
  "calculate_text_x_position lib g line fnt width align_arg =
     (let align = (case align_arg of None \<Rightarrow> text_alignment g | Some a \<Rightarrow> a);
          line_width = text_width lib fnt line
      in if align \<in> set [''top_left'', ''left'', ''bottom_left'']
         then text_margins g + text_x_offset g
         else if align \<in> set [''top_center'', ''center'', ''bottom_center'']
         then (width - line_width) div 2 + text_x_offset g
         else if align \<in> set [''top_right'', ''right'', ''bottom_right'']
         then width - text_margins g - line_width + text_x_offset g
         else (width - line_width) div 2 + text_x_offset g)"

definition box_x :: "generator \<Rightarrow> int \<Rightarrow> int \<Rightarrow> int" where
  \<comment> \<open>The left edge of the text box, as \<open>_draw_text_box\<close> computes it.\<close>
  "box_x g max_line_width width =
     (if text_alignment g = ''center''
      then (width - max_line_width) div 2 - text_box_padding g + text_x_offset g
      else if text_alignment g = ''left''
      then text_margins g - text_box_padding g + text_x_offset g
      else width - text_margins g - max_line_width - text_box_padding g + text_x_offset g)"

definition draw_text_box ::
  "pil \<Rightarrow> generator \<Rightarrow> image \<Rightarrow> string list \<Rightarrow> int \<Rightarrow> int \<Rightarrow> int \<Rightarrow> int \<Rightarrow> exn + image" where
  \<comment> \<open>The overlay of a box that is not opaque is a new image of the size of the box; an
      opaque box is a rectangle from its first to its second corner.\<close>
  "draw_text_box lib g img lines max_line_width width height y_position =
     (let bx = box_x g max_line_width width;
          box_y = y_position - text_box_padding g;
          box_width = max_line_width + 2 * text_box_padding g;
          box_height = int (length lines) * (font_size g + pct_of lib (font_size g) (line_spacing_factor g))
                       - pct_of lib (font_size g) (line_spacing_factor g) + 2 * text_box_padding g
      in case text_box_color g of
           (r, gr, b, a) \<Rightarrow>
             if a < 255
             then (case image_new (box_width, box_height) (text_box_color g) of
                     Inl e \<Rightarrow> Inl e
                   | Inr overlay \<Rightarrow> Inr (paste lib img overlay (bx, box_y) overlay))
             else draw_rectangle lib img (bx, box_y, bx + box_width, box_y + box_height)
                    (text_box_color g))"

fun draw_lines ::
  "pil \<Rightarrow> generator \<Rightarrow> font \<Rightarrow> int \<Rightarrow> string \<Rightarrow> int \<Rightarrow> image \<Rightarrow> int \<Rightarrow> string list \<Rightarrow> image" where
  \<comment> \<open>The loop that draws the lines, the stroke with each line.\<close>
  "draw_lines lib g fnt width align line_spacing img y_position [] = img"
| "draw_lines lib g fnt width align line_spacing img y_position (line # ls) =
     (let x_position = calculate_text_x_position lib g line fnt width (Some align)
      in draw_lines lib g fnt width align line_spacing
           (draw_text lib img (x_position, y_position) line fnt
              (opaque (text_color g)) (text_stroke_width g) (opaque (text_stroke_color g)))
           (y_position + font_size g + line_spacing) ls)"

definition text_y_position :: "generator \<Rightarrow> int \<Rightarrow> int \<Rightarrow> int" where
  \<comment> \<open>The \<open>y_position\<close> of the first line, by the alignment.\<close>
  "text_y_position g height text_height =
     (let align = text_alignment g
      in if align \<in> set [''top_left'', ''top_center'', ''top_right'']
         then text_margins g + text_y_offset g
         else if align \<in> set [''bottom_left'', ''bottom_center'', ''bottom_right'']
         then height - text_margins g - text_height + text_y_offset g
         else (height - text_height) div 2 + text_y_offset g)"

definition add_text ::
  "pil \<Rightarrow> host \<Rightarrow> generator \<Rightarrow> session \<Rightarrow> image \<Rightarrow> string \<Rightarrow> int \<Rightarrow> int
     \<Rightarrow> (exn + image) \<times> session" where
  "add_text lib h g ss img display_text width height =
     (case get_pil_font h (manager ss) (font_name g) (font_size g) of
        (fnt, rs1) \<Rightarrow>
     case wrap_text lib h (ss\<lparr>manager := rs1\<rparr>) display_text (font_name g) (font_size g)
            (width - text_margins g * 2) of
        (lines, ss2) \<Rightarrow>
          (let line_spacing = pct_of lib (font_size g) (line_spacing_factor g);
               text_height = int (length lines) * (font_size g + line_spacing) - line_spacing;
               y_position = text_y_position g height text_height;
               max_line_width =
                 (if text_box_enabled g
                  then foldl (\<lambda>m line. max m (text_width lib fnt line)) 0 lines
                  else 0)
           in case (if text_box_enabled g
                    then draw_text_box lib g img lines max_line_width width height y_position
                    else Inr img) of
                Inl e \<Rightarrow> (Inl e, ss2)
              | Inr boxed \<Rightarrow>
                  (Inr (draw_lines lib g fnt width (text_alignment g) line_spacing boxed y_position lines),
                   ss2)))"

definition generate_thumbnail ::
  "pil \<Rightarrow> host \<Rightarrow> generator \<Rightarrow> session \<Rightarrow> string \<Rightarrow> int \<Rightarrow> int \<Rightarrow> int
     \<Rightarrow> (exn + image \<times> string) \<times> session" where
  \<comment> \<open>An exception of a layer ends the call; the session keeps what the call did before.\<close>
  "generate_thumbnail lib h g ss text number width height =
     (let display_text = replace_char (CHR ''^'') (str number) text
      in case image_new (width, height) transparent of
           Inl e \<Rightarrow> (Inl e, ss)
         | Inr img \<Rightarrow>
       case add_background_color g img width height of
           Inl e \<Rightarrow> (Inl e, ss)
         | Inr img1 \<Rightarrow>
       case add_background_image lib g img1 width height of
           Inl e \<Rightarrow> (Inl e, ss)
         | Inr img2 \<Rightarrow>
       case add_pattern lib g img2 width height of
           Inl e \<Rightarrow> (Inl e, ss)
         | Inr img3 \<Rightarrow>
       case add_text lib h g ss img3 display_text width height of
           (Inl e, ss') \<Rightarrow> (Inl e, ss')
         | (Inr img4, ss') \<Rightarrow> (Inr (img4, filename_base g @ str number), ss'))"


section \<open>The web application\<close>

text \<open>
  \<open>app.py\<close>: what the upload route does with the image it stores in the generator, and
  the names of the entries of a batch archive. An upload is the name of the file and what
  \<open>Image.open(filepath).convert("RGBA")\<close> makes of the saved bytes.
\<close>

datatype response = Uploaded | Refused string | Failed exn

definition allowed_file :: "string \<Rightarrow> bool" where
  \<comment> \<open>\<open>'.' in filename and filename.rsplit('.', 1)[1].lower() in allowed_extensions\<close>\<close>
  "allowed_file filename =
     (CHR ''.'' \<in> set filename \<and>
      lower (rev (takeWhile (\<lambda>c. c \<noteq> CHR ''.'') (rev filename)))
        \<in> set [''png'', ''jpg'', ''jpeg'', ''gif''])"

definition upload_background ::
  "pil \<Rightarrow> generator \<Rightarrow> (string \<times> (exn + image)) option \<Rightarrow> response \<times> generator" where
  "upload_background lib g upload =
     (case upload of
        None \<Rightarrow> (Refused ''No file uploaded'', g)
      | Some (filename, decoded) \<Rightarrow>
          if filename = [] then (Refused ''No file selected'', g)
          else if \<not> allowed_file filename then (Refused ''Invalid file type'', g)
          else (case decoded of
                  Inl e \<Rightarrow> (Failed e, g)
                | Inr img \<Rightarrow>
                    (let max_size = 2048;
                         img' = (if fst (isize img) > max_size \<or> snd (isize img) > max_size
                                 then thumbnail lib img (max_size, max_size) LANCZOS
                                 else img)
                     in (Uploaded, g\<lparr>background_image := Some img'\<rparr>))))"

definition batch_filename :: "string \<Rightarrow> int \<Rightarrow> string" where
  \<comment> \<open>The name of one entry of the archive of \<open>generate_batch\<close>.\<close>
  "batch_filename fbase n =
     (let current_filename = replace_char (CHR ''^'') (str n) fbase
      in current_filename @ ''_'' @ str n @ ''.png'')"

fun batch_entries ::
  "pil \<Rightarrow> host \<Rightarrow> generator \<Rightarrow> session \<Rightarrow> string \<Rightarrow> string \<Rightarrow> int \<Rightarrow> nat list
     \<Rightarrow> (exn + (string \<times> image) list) \<times> session" where
  \<comment> \<open>The loop of \<open>generate_batch\<close> over \<open>range(batch_count)\<close>.\<close>
  "batch_entries lib h g ss text_template fbase start_number [] = (Inr [], ss)"
| "batch_entries lib h g ss text_template fbase start_number (i # is) =
     (let current_text = replace_char (CHR ''^'') (str (start_number + int i)) text_template
      in case generate_thumbnail lib h g ss current_text (start_number + int i) 1280 720 of
           (Inl e, ss') \<Rightarrow> (Inl e, ss')
         | (Inr (thumb, unused), ss') \<Rightarrow>
             (case batch_entries lib h g ss' text_template fbase start_number is of
                (Inl e, ss'') \<Rightarrow> (Inl e, ss'')
              | (Inr entries, ss'') \<Rightarrow>
                  (Inr ((batch_filename fbase (start_number + int i), thumb) # entries), ss'')))"


section \<open>The layers of the specification\<close>

text \<open>
  The specification names five layers, says what each one is, and gives the order in
  which the canvas receives them. The definitions of this section follow its words, not
  the methods of the generator: a fill that leaves the colour at full opacity in every
  pixel; a picture scaled by a percentage of the frame, centred, shifted, its alpha
  scaled by the opacity, blended alpha-over; a pattern scaled by a percentage of its own
  size, centred on the frame, shifted, tinted, its alpha scaled, blended; a box around
  the widest line with the padding on all sides; the lines of the text, each at its
  position. They are built from the operations of the imaging library and from the
  positions that the generator computes for the box and for a line.
\<close>

datatype layer = Background_fill | Background_picture | Pattern_overlay | Text_box | Text_glyphs

definition layers_in_order :: "layer list" where
  "layers_in_order = [Background_fill, Background_picture, Pattern_overlay, Text_box, Text_glyphs]"

definition block_height :: "pil \<Rightarrow> generator \<Rightarrow> string list \<Rightarrow> int" where
  \<comment> \<open>The height of a block of lines: the font size for each, the spacing between two.\<close>
  "block_height lib g lines =
     int (length lines) * (font_size g + pct_of lib (font_size g) (line_spacing_factor g))
       - pct_of lib (font_size g) (line_spacing_factor g)"

definition widest_line :: "pil \<Rightarrow> font \<Rightarrow> string list \<Rightarrow> int" where
  "widest_line lib fnt lines = foldl (\<lambda>m line. max m (text_width lib fnt line)) 0 lines"

definition filter_for :: "int \<Rightarrow> resampling" where
  \<comment> \<open>The high-quality filter for a reduction.\<close>
  "filter_for percent = (if percent < 100 then LANCZOS else BILINEAR)"

definition scaled :: "pil \<Rightarrow> image \<Rightarrow> int \<times> int \<Rightarrow> int \<Rightarrow> exn + image" where
  \<comment> \<open>An image brought to a percentage of a reference size.\<close>
  "scaled lib im reference percent =
     resize lib im (pct_of lib (fst reference) percent, pct_of lib (snd reference) percent)
       (filter_for percent)"

definition placed :: "pil \<Rightarrow> int \<times> int \<Rightarrow> image \<Rightarrow> int \<times> int \<Rightarrow> exn + image" where
  \<comment> \<open>A transparent layer of the size of the frame with the image centred on it, then
      shifted.\<close>
  "placed lib frame im shift =
     (case image_new frame transparent of
        Inl e \<Rightarrow> Inl e
      | Inr blank \<Rightarrow>
          Inr (paste lib blank im
                 ((fst frame - fst (isize im)) div 2 + fst shift,
                  (snd frame - snd (isize im)) div 2 + snd shift) im))"

definition with_opacity :: "pil \<Rightarrow> int \<Rightarrow> image \<Rightarrow> image" where
  \<comment> \<open>Only the alpha of the layer is scaled.\<close>
  "with_opacity lib percent im = (if percent < 100 then scale_alpha lib percent im else im)"

definition fill_layer :: "generator \<Rightarrow> int \<times> int \<Rightarrow> image \<Rightarrow> exn + image" where
  \<comment> \<open>The solid colour at full opacity, in every pixel of the frame.\<close>
  "fill_layer g frame canvas =
     (if isize canvas = frame
      then Inr \<lparr>isize = frame, pixel = (\<lambda>p. opaque (background_color g))\<rparr>
      else Inl ValueError)"

definition picture_layer :: "pil \<Rightarrow> generator \<Rightarrow> int \<times> int \<Rightarrow> image \<Rightarrow> exn + image" where
  "picture_layer lib g frame canvas =
     (case background_image g of
        None \<Rightarrow> Inr canvas
      | Some bg \<Rightarrow>
          (case scaled lib bg frame (bg_image_scale g) of
             Inl e \<Rightarrow> Inl e
           | Inr picture \<Rightarrow>
               (case placed lib frame picture (bg_image_x_offset g, bg_image_y_offset g) of
                  Inl e \<Rightarrow> Inl e
                | Inr l \<Rightarrow> alpha_composite canvas (with_opacity lib (background_opacity g) l))))"

definition pattern_layer :: "pil \<Rightarrow> generator \<Rightarrow> int \<times> int \<Rightarrow> image \<Rightarrow> exn + image" where
  "pattern_layer lib g frame canvas =
     (case current_pattern g of
        None \<Rightarrow> Inr canvas
      | Some pat \<Rightarrow>
          (case (if pattern_scale g = 100 then Inr pat
                 else scaled lib pat (isize pat) (pattern_scale g)) of
             Inl e \<Rightarrow> Inl e
           | Inr motif \<Rightarrow>
               (case placed lib frame motif (pattern_x_offset g, pattern_y_offset g) of
                  Inl e \<Rightarrow> Inl e
                | Inr l \<Rightarrow>
                    alpha_composite canvas
                      (with_opacity lib (pattern_opacity g)
                         (if pattern_color_enabled g then tint (pattern_color g) l else l)))))"

definition box_layer ::
  "pil \<Rightarrow> generator \<Rightarrow> font \<Rightarrow> string list \<Rightarrow> int \<times> int \<Rightarrow> image \<Rightarrow> exn + image" where
  \<comment> \<open>The box reaches the padding beyond the widest line and beyond the block, on all
      sides; it is alpha-blended when its colour is not opaque.\<close>
  "box_layer lib g fnt lines frame canvas =
     (if \<not> text_box_enabled g then Inr canvas
      else
        let x0 = box_x g (widest_line lib fnt lines) (fst frame);
            y0 = text_y_position g (snd frame) (block_height lib g lines) - text_box_padding g;
            w = widest_line lib fnt lines + 2 * text_box_padding g;
            h = block_height lib g lines + 2 * text_box_padding g
        in if snd (snd (snd (text_box_color g))) < 255
           then (case image_new (w, h) (text_box_color g) of
                   Inl e \<Rightarrow> Inl e
                 | Inr overlay \<Rightarrow> Inr (paste lib canvas overlay (x0, y0) overlay))
           else draw_rectangle lib canvas (x0, y0, x0 + w, y0 + h) (text_box_color g))"

definition glyph_layer ::
  "pil \<Rightarrow> generator \<Rightarrow> font \<Rightarrow> string list \<Rightarrow> int \<times> int \<Rightarrow> image \<Rightarrow> image" where
  \<comment> \<open>Line \<open>i\<close> of the block, counted from 0, is drawn \<open>i\<close> times the font size and the
      spacing below the first; fill and stroke at full opacity.\<close>
  "glyph_layer lib g fnt lines frame canvas =
     foldl (\<lambda>c (i, line).
              draw_text lib c
                (calculate_text_x_position lib g line fnt (fst frame) (Some (text_alignment g)),
                 text_y_position g (snd frame) (block_height lib g lines)
                   + int i * (font_size g + pct_of lib (font_size g) (line_spacing_factor g)))
                line fnt (opaque (text_color g)) (text_stroke_width g) (opaque (text_stroke_color g)))
       canvas (enumerate 0 lines)"

definition apply_layer ::
  "pil \<Rightarrow> generator \<Rightarrow> font \<Rightarrow> string list \<Rightarrow> int \<times> int \<Rightarrow> layer \<Rightarrow> image \<Rightarrow> exn + image" where
  "apply_layer lib g fnt lines frame l canvas =
     (case l of
        Background_fill \<Rightarrow> fill_layer g frame canvas
      | Background_picture \<Rightarrow> picture_layer lib g frame canvas
      | Pattern_overlay \<Rightarrow> pattern_layer lib g frame canvas
      | Text_box \<Rightarrow> box_layer lib g fnt lines frame canvas
      | Text_glyphs \<Rightarrow> Inr (glyph_layer lib g fnt lines frame canvas))"

fun apply_layers ::
  "pil \<Rightarrow> generator \<Rightarrow> font \<Rightarrow> string list \<Rightarrow> int \<times> int \<Rightarrow> layer list \<Rightarrow> image \<Rightarrow> exn + image" where
  \<comment> \<open>The layers one after the other, the first of the list first; a layer that cannot be
      made ends the render.\<close>
  "apply_layers lib g fnt lines frame [] canvas = Inr canvas"
| "apply_layers lib g fnt lines frame (l # ls) canvas =
     (case apply_layer lib g fnt lines frame l canvas of
        Inl e \<Rightarrow> Inl e
      | Inr canvas' \<Rightarrow> apply_layers lib g fnt lines frame ls canvas')"

definition render_layers ::
  "pil \<Rightarrow> generator \<Rightarrow> font \<Rightarrow> string list \<Rightarrow> int \<times> int \<Rightarrow> layer list \<Rightarrow> exn + image" where
  \<comment> \<open>The layers over a transparent canvas of the size of the frame.\<close>
  "render_layers lib g fnt lines frame ls =
     (case image_new frame transparent of
        Inl e \<Rightarrow> Inl e
      | Inr canvas \<Rightarrow> apply_layers lib g fnt lines frame ls canvas)"


section \<open>A concrete imaging library and host\<close>

text \<open>
  An instance of the parameters, for evaluating the model: percentages in exact
  arithmetic, nearest-neighbour resampling, a paste that copies the pixels the mask
  covers, and fonts whose every character is a block: a tenth of the font size wide in a
  TrueType font (a fifth in the font Display), six pixels wide in the default font.
\<close>

definition exact_pct :: "int \<Rightarrow> int \<Rightarrow> int" where
  "exact_pct x p = (if 0 \<le> x * p then (x * p) div 100 else - ((- (x * p)) div 100))"

definition inside :: "int \<times> int \<times> int \<times> int \<Rightarrow> int \<times> int \<Rightarrow> bool" where
  "inside box p =
     (case box of (x0, y0, x1, y1) \<Rightarrow> x0 \<le> fst p \<and> fst p < x1 \<and> y0 \<le> snd p \<and> snd p < y1)"

definition fit_within :: "image \<Rightarrow> int \<times> int \<Rightarrow> resampling \<Rightarrow> image" where
  "fit_within im box rs =
     (let w = fst (isize im); h = snd (isize im); bw = fst box; bh = snd box
      in if w \<le> bw \<and> h \<le> bh then im
         else if h * bw \<le> w * bh
         then \<lparr>isize = (bw, max 1 (h * bw div w)), pixel = (\<lambda>p. pixel im (fst p * w div bw, snd p * w div bw))\<rparr>
         else \<lparr>isize = (max 1 (w * bh div h), bh), pixel = (\<lambda>p. pixel im (fst p * h div bh, snd p * h div bh))\<rparr>)"

definition glyph_width :: "font \<Rightarrow> int" where
  "glyph_width fnt =
     (case fnt of
        FreeTypeFont name sz \<Rightarrow>
          if name = ''/app/static/fonts/Display.ttf'' then sz div 5 else sz div 10
      | DefaultFont \<Rightarrow> 6)"

definition block_pil :: pil where
  "block_pil =
     \<lparr>pct_of = exact_pct,
      resize_px = (\<lambda>im sz rs p. pixel im (fst p * fst (isize im) div fst sz, snd p * snd (isize im) div snd sz)),
      paste_px = (\<lambda>dst src pos msk p.
         let q = (fst p - fst pos, snd p - snd pos)
         in if inside (0, 0, fst (isize src), snd (isize src)) q \<and> snd (snd (snd (pixel msk q))) \<noteq> 0
            then pixel src q else pixel dst p),
      textbbox = (\<lambda>fnt s. (0, 0, glyph_width fnt * int (length s), 12)),
      text_px = (\<lambda>img pos line fnt fill sw sf p.
         if inside (fst pos, snd pos, fst pos + glyph_width fnt * int (length line), snd pos + 12) p
         then fill else pixel img p),
      rectangle_px = (\<lambda>img box fill p. if inside box p then fill else pixel img p),
      thumbnail = fit_within\<rparr>"

definition photo :: image where
  \<comment> \<open>A picture of 4000 by 3000 pixels.\<close>
  "photo = \<lparr>isize = (4000, 3000), pixel = (\<lambda>p. (10, 20, 30, 255))\<rparr>"

definition tile :: image where
  \<comment> \<open>A pattern of 8 by 8 pixels, opaque white on its diagonal.\<close>
  "tile = \<lparr>isize = (8, 8), pixel = (\<lambda>p. if fst p = snd p then (255, 255, 255, 255) else (0, 0, 0, 0))\<rparr>"

definition studio :: host where
  \<comment> \<open>A Linux host with one large picture, stored as a background and as a pattern, and two
      system fonts; the font file of the application does not load.\<close>
  "studio =
     \<lparr>base_path = ''/app'',
      path_exists = (\<lambda>p. p \<in> set [''/app/static/backgrounds/big.png'', ''/app/static/patterns/big.png'',
                                    ''/app/static/fonts/Brand.ttf'']),
      open_rgba = (\<lambda>p. if p \<in> set [''/app/static/backgrounds/big.png'', ''/app/static/patterns/big.png'']
                        then Inr photo else Inl OSError),
      truetype = (\<lambda>n sz. if n \<in> set [''Brand'', ''DejaVuSans.ttf''] \<and> 0 < sz
                          then Inr (FreeTypeFont n sz) else Inl OSError),
      platform_system = ''Linux''\<rparr>"

definition studio_resources :: resources where
  "studio_resources = new_resources [(''Brand'', ''/app/static/fonts/Brand.ttf'')]"

definition poster :: generator where
  \<comment> \<open>The defaults with every layer present: the picture over the whole frame, the tile
      at its own size, moved 50 pixels to the right, an opaque box and a text colour of
      their own.\<close>
  "poster =
     initialize_defaults
       \<lparr>background_image := Some photo, current_pattern := Some tile, pattern_scale := 100,
        pattern_x_offset := 50, text_color := (1, 2, 3, 255), text_box_enabled := True,
        text_box_color := (40, 50, 60, 255)\<rparr>"

definition studio_session :: session where
  "studio_session = new_session [(''Brand'', ''/app/static/fonts/Brand.ttf'')]"

definition workshop :: host where
  \<comment> \<open>A Linux host with the system font DejaVu Sans and a font file Display.ttf in the
      font directory of the application.\<close>
  "workshop =
     \<lparr>base_path = ''/app'',
      path_exists = (\<lambda>p. p = ''/app/static/fonts/Display.ttf''),
      open_rgba = (\<lambda>p. Inl OSError),
      truetype = (\<lambda>n sz. if n \<in> set [''DejaVuSans.ttf'', ''/app/static/fonts/Display.ttf''] \<and> 0 < sz
                          then Inr (FreeTypeFont n sz) else Inl OSError),
      platform_system = ''Linux''\<rparr>"

definition gallery_names :: "nat \<Rightarrow> string list" where
  \<comment> \<open>\<open>n\<close> names: a, aa, aaa, ...\<close>
  "gallery_names n = map (\<lambda>k. replicate (Suc k) (CHR ''a'')) [0..<n]"

definition gallery :: "nat \<Rightarrow> host" where
  \<comment> \<open>A host whose pattern directory holds \<open>n\<close> tiles.\<close>
  "gallery n =
     \<lparr>base_path = ''/app'',
      path_exists = (\<lambda>p. p \<in> set (map (\<lambda>name. ''/app/static/patterns/'' @ name @ ''.png'') (gallery_names n))),
      open_rgba = (\<lambda>p. Inr tile),
      truetype = (\<lambda>n sz. Inl OSError),
      platform_system = ''Linux''\<rparr>"

definition load_patterns :: "pil \<Rightarrow> host \<Rightarrow> resources \<Rightarrow> string list \<Rightarrow> resources" where
  \<comment> \<open>One call of \<open>get_pattern_image\<close> for each name, in order.\<close>
  "load_patterns lib h rs names = foldl (\<lambda>r name. snd (get_pattern_image lib h r name)) rs names"


section \<open>Notions of the statements\<close>

text \<open>
  The definitions below are not functions of the source: they name what the statements
  talk about.
\<close>

definition words_of :: "string \<Rightarrow> string list" where
  \<comment> \<open>The words of a text: those of each of its lines.\<close>
  "words_of text = concat (map split_ws (split_on newline text))"

definition wrap_paragraph :: "(string \<Rightarrow> int) \<Rightarrow> int \<Rightarrow> string \<Rightarrow> string list" where
  \<comment> \<open>What one line of the text adds to the wrapped lines.\<close>
  "wrap_paragraph tw mw line =
     (case wrap_words tw mw [] [] (split_ws line) of
        (processed, cur) \<Rightarrow> if cur \<noteq> [] then processed @ [join_sp cur] else processed)"

definition line_ok :: "(string \<Rightarrow> int) \<Rightarrow> int \<Rightarrow> string set \<Rightarrow> string \<Rightarrow> bool" where
  \<comment> \<open>A wrapped line fits, or it is one of the words \<open>W\<close> and too wide by itself.\<close>
  "line_ok tw mw W l = (tw l \<le> mw \<or> (l \<in> W \<and> mw < tw l))"

definition render_font :: "host \<Rightarrow> generator \<Rightarrow> session \<Rightarrow> font" where
  \<comment> \<open>The font that \<open>_add_text\<close> resolves.\<close>
  "render_font h g ss = fst (get_pil_font h (manager ss) (font_name g) (font_size g))"

definition render_lines :: "pil \<Rightarrow> host \<Rightarrow> generator \<Rightarrow> session \<Rightarrow> string \<Rightarrow> int \<Rightarrow> string list" where
  \<comment> \<open>The lines that \<open>_add_text\<close> gets from \<open>_wrap_text\<close>.\<close>
  "render_lines lib h g ss display_text width =
     fst (wrap_text lib h (ss\<lparr>manager := snd (get_pil_font h (manager ss) (font_name g) (font_size g))\<rparr>)
            display_text (font_name g) (font_size g) (width - text_margins g * 2))"

fun first_loadable :: "host \<Rightarrow> int \<Rightarrow> string list \<Rightarrow> font" where
  \<comment> \<open>The first candidate that loads; the default font when every candidate is missing
      (OSError), and as soon as a candidate fails in another way.\<close>
  "first_loadable h sz [] = DefaultFont"
| "first_loadable h sz (candidate # candidates) =
     (case truetype h candidate sz of
        Inr fnt \<Rightarrow> fnt
      | Inl OSError \<Rightarrow> first_loadable h sz candidates
      | Inl e \<Rightarrow> DefaultFont)"

definition resolve_font :: "host \<Rightarrow> resources \<Rightarrow> string \<Rightarrow> int \<Rightarrow> font" where
  \<comment> \<open>The resolution order in words: a name of the custom index is loaded from its file,
      and is the default font when that fails; any other name is the first loadable of the
      literal name and the fallbacks of the platform.\<close>
  "resolve_font h rs name sz =
     (case map_of (font_paths rs) name of
        Some path \<Rightarrow> (case truetype h path sz of Inr fnt \<Rightarrow> fnt | Inl e \<Rightarrow> DefaultFont)
      | None \<Rightarrow>
          first_loadable h sz (name # get_platform_fallbacks (lower (platform_system h)) name))"

definition fonts_coherent :: "host \<Rightarrow> resources \<Rightarrow> bool" where
  \<comment> \<open>Every font that the manager holds, in \<open>_fonts\<close> or in the \<open>lru_cache\<close> of
      \<open>get_pil_font\<close>, is the one that the host resolves for its name and size now.\<close>
  "fonts_coherent h rs =
     ((\<forall>((n, s), f) \<in> set (font_memo rs). f = resolve_font h rs n s) \<and>
      (\<forall>(k, f) \<in> set (fonts rs). \<forall>n s. k = n @ ''_'' @ str s \<longrightarrow> f = resolve_font h rs n s))"

definition wrap_fresh :: "pil \<Rightarrow> host \<Rightarrow> session \<Rightarrow> bool" where
  \<comment> \<open>Every entry of the \<open>lru_cache\<close> of \<open>_wrap_text\<close> holds the lines of its text in the font
      that the host resolves for its name and size now.\<close>
  "wrap_fresh lib h ss =
     (\<forall>((t, n, s, w), ls) \<in> set (wrap_memo ss).
        ls = wrap_lines (text_width lib (resolve_font h (manager ss) n s)) w [] (split_on newline t))"

definition session_ok :: "pil \<Rightarrow> host \<Rightarrow> session \<Rightarrow> bool" where
  \<comment> \<open>No cache of the session is stale.\<close>
  "session_ok lib h ss = (fonts_coherent h (manager ss) \<and> wrap_fresh lib h ss)"

definition wrap_computed :: "pil \<Rightarrow> session \<Rightarrow> bool" where
  \<comment> \<open>Every entry of the \<open>lru_cache\<close> of \<open>_wrap_text\<close> was computed by the body of the method:
      it holds the lines of its text in some font.\<close>
  "wrap_computed lib ss =
     (\<forall>((t, n, s, w), ls) \<in> set (wrap_memo ss).
        \<exists>fnt. ls = wrap_lines (text_width lib fnt) w [] (split_on newline t))"



definition plain :: "generator \<Rightarrow> bool" where
  \<comment> \<open>A configuration without picture, pattern and text box.\<close>
  "plain g = (background_image g = None \<and> current_pattern g = None \<and> \<not> text_box_enabled g)"

definition warm_session :: session where
  \<comment> \<open>The session of the studio after one text has been wrapped.\<close>
  "warm_session =
     snd (wrap_text block_pil studio studio_session ''abcdefgh ij kl'' ''Arial'' 100 50)"

definition stale_session :: session where
  \<comment> \<open>A generator started before the font directory had any file wraps a text in the
      font Display at size 40; then \<open>refresh_resources\<close> finds the file Display.ttf.\<close>
  "stale_session =
     refresh (snd (wrap_text block_pil workshop (new_session []) ''aaaaaaa bbbbbbb'' ''Display'' 40 60))
       [(''Display'', ''/app/static/fonts/Display.ttf'')]"

definition font_requests :: "host \<Rightarrow> resources \<Rightarrow> (string \<times> int) list \<Rightarrow> resources" where
  \<comment> \<open>One call of \<open>get_pil_font\<close> for each request, in order.\<close>
  "font_requests h rs reqs = foldl (\<lambda>r (name, sz). snd (get_pil_font h r name sz)) rs reqs"

definition within_2048 :: "image \<Rightarrow> bool" where
  "within_2048 im = (max (fst (isize im)) (snd (isize im)) \<le> 2048)"

definition thumbnail_fits :: "pil \<Rightarrow> bool" where
  \<comment> \<open>What Pillow documents of \<open>thumbnail\<close>: the image it leaves is no larger than the size
      given, here 2048 by 2048.\<close>
  "thumbnail_fits lib = (\<forall>im rs. within_2048 (thumbnail lib im (2048, 2048) rs))"

definition backgrounds_small :: "resources \<Rightarrow> bool" where
  \<comment> \<open>Every background in \<open>_images\<close>, and every background the \<open>lru_cache\<close> of
      \<open>get_image\<close> holds, is within 2048 pixels.\<close>
  "backgrounds_small rs =
     ((\<forall>(k, im) \<in> set (images rs). take 11 k = ''background_'' \<longrightarrow> within_2048 im) \<and>
      (\<forall>((n, t), r) \<in> set (image_memo rs). t = ''background'' \<longrightarrow>
          (case r of None \<Rightarrow> True | Some im \<Rightarrow> within_2048 im)))"

definition full_font_cache :: resources where
  \<comment> \<open>A manager whose \<open>_fonts\<close> holds 150 fonts: a, aa, aaa, ... at size 12.\<close>
  "full_font_cache =
     (new_resources [])\<lparr>fonts := map (\<lambda>name. (name @ ''_12'', DefaultFont)) (gallery_names 150)\<rparr>"

declare load_image.simps [simp del]


section \<open>Lemmas: strings and wrapping\<close>

lemma split_ws_from_nonempty:
  "w \<in> set (split_ws_from cur s) \<Longrightarrow> w \<noteq> []"
  by (induction s arbitrary: cur) (auto split: if_splits)

lemma split_ws_from_no_space:
  "w \<in> set (split_ws_from cur s) \<Longrightarrow> \<forall>c\<in>set cur. \<not> is_space c \<Longrightarrow> \<forall>c\<in>set w. \<not> is_space c"
proof (induction s arbitrary: cur)
  case Nil
  then show ?case by (auto split: if_splits)
next
  case (Cons a s)
  show ?case
  proof (cases "is_space a")
    case True
    with Cons.prems have "w = cur \<or> w \<in> set (split_ws_from [] s)"
      by (auto split: if_splits)
    then show ?thesis
    proof
      assume "w = cur" with Cons.prems(2) show ?thesis by simp
    next
      assume "w \<in> set (split_ws_from [] s)"
      then show ?thesis using Cons.IH[of "[]"] by simp
    qed
  next
    case False
    with Cons.prems have "w \<in> set (split_ws_from (cur @ [a]) s)" by simp
    moreover have "\<forall>c\<in>set (cur @ [a]). \<not> is_space c" using False Cons.prems(2) by simp
    ultimately show ?thesis using Cons.IH[of "cur @ [a]"] by blast
  qed
qed

lemma split_ws_blank: "\<forall>c\<in>set s. is_space c \<Longrightarrow> split_ws_from [] s = []"
  by (induction s) auto

lemma split_ws_word:
  "w \<in> set (split_ws s) \<Longrightarrow> w \<noteq> [] \<and> (\<forall>c\<in>set w. \<not> is_space c)"
  unfolding split_ws_def using split_ws_from_nonempty split_ws_from_no_space by fastforce

lemma split_on_nonempty: "split_on sep s \<noteq> []"
  by (induction s) (auto split: list.splits)

lemma split_on_append: "split_on sep (a @ sep # b) = split_on sep a @ split_on sep b"
proof (induction a)
  case Nil
  then show ?case by simp
next
  case (Cons c cs)
  show ?case
  proof (cases "c = sep")
    case True
    then show ?thesis using Cons by simp
  next
    case False
    obtain l ls where "split_on sep cs = l # ls"
      using split_on_nonempty[of sep cs] by (cases "split_on sep cs") auto
    then show ?thesis using False Cons by simp
  qed
qed

lemma split_on_chars: "l \<in> set (split_on sep s) \<Longrightarrow> set l \<subseteq> set s"
proof (induction s arbitrary: l)
  case Nil
  then show ?case by simp
next
  case (Cons c cs)
  show ?case
  proof (cases "c = sep")
    case True
    with Cons.prems have "l = [] \<or> l \<in> set (split_on sep cs)" by simp
    then show ?thesis using Cons.IH by auto
  next
    case False
    obtain k ks where ks: "split_on sep cs = k # ks"
      using split_on_nonempty[of sep cs] by (cases "split_on sep cs") auto
    with False Cons.prems have "l = c # k \<or> l \<in> set ks" by simp
    then show ?thesis
    proof
      assume "l = c # k"
      moreover have "set k \<subseteq> set cs" using Cons.IH[of k] ks by simp
      ultimately show ?thesis by auto
    next
      assume "l \<in> set ks"
      then have "set l \<subseteq> set cs" using Cons.IH[of l] ks by simp
      then show ?thesis by auto
    qed
  qed
qed

lemma wrap_words_acc:
  "wrap_words tw mw processed cur ws =
     (processed @ fst (wrap_words tw mw [] cur ws), snd (wrap_words tw mw [] cur ws))"
proof (induction ws arbitrary: processed cur)
  case Nil
  then show ?case by simp
next
  case (Cons w ws)
  show ?case
  proof (cases "tw (join_sp (cur @ [w])) > mw \<and> cur \<noteq> []")
    case True
    then show ?thesis
      using Cons.IH[of "processed @ [join_sp cur]" "[w]"] Cons.IH[of "[join_sp cur]" "[w]"]
      by (simp add: Let_def)
  next
    case False
    then show ?thesis
      using Cons.IH[of processed "cur @ [w]"] by (auto simp add: Let_def)
  qed
qed

lemma wrap_lines_concat:
  "wrap_lines tw mw processed ls = processed @ concat (map (wrap_paragraph tw mw) ls)"
proof (induction ls arbitrary: processed)
  case Nil
  then show ?case by simp
next
  case (Cons l ls)
  obtain p c where pc: "wrap_words tw mw [] [] (split_ws l) = (p, c)" by (cases "wrap_words tw mw [] [] (split_ws l)")
  have "wrap_words tw mw processed [] (split_ws l) = (processed @ p, c)"
    using wrap_words_acc[of tw mw processed "[]" "split_ws l"] pc by simp
  then show ?case using Cons.IH pc by (simp add: wrap_paragraph_def)
qed

lemma wrap_paragraph_blank: "\<forall>c\<in>set l. is_space c \<Longrightarrow> wrap_paragraph tw mw l = []"
  by (simp add: wrap_paragraph_def split_ws_def split_ws_blank)

lemma line_ok_word: "w \<in> W \<Longrightarrow> line_ok tw mw W w"
  by (auto simp: line_ok_def)

lemma wrap_words_ok:
  assumes "\<forall>l\<in>set processed. line_ok tw mw W l"
    and "cur = [] \<or> line_ok tw mw W (join_sp cur)"
    and "set ws \<subseteq> W"
  shows "(\<forall>l\<in>set (fst (wrap_words tw mw processed cur ws)). line_ok tw mw W l) \<and>
         (snd (wrap_words tw mw processed cur ws) = [] \<or>
          line_ok tw mw W (join_sp (snd (wrap_words tw mw processed cur ws))))"
  using assms
proof (induction ws arbitrary: processed cur)
  case Nil
  then show ?case by simp
next
  case (Cons w ws)
  have wW: "w \<in> W" and wsW: "set ws \<subseteq> W" using Cons.prems(3) by auto
  show ?case
  proof (cases "tw (join_sp (cur @ [w])) > mw \<and> cur \<noteq> []")
    case True
    then have step: "wrap_words tw mw processed cur (w # ws) =
        wrap_words tw mw (processed @ [join_sp cur]) [w] ws" by (simp add: Let_def)
    have a: "\<forall>l\<in>set (processed @ [join_sp cur]). line_ok tw mw W l"
      using Cons.prems(1,2) True by auto
    have b: "[w] = [] \<or> line_ok tw mw W (join_sp [w])"
      using wW by (simp add: line_ok_word)
    show ?thesis
      unfolding step by (rule Cons.IH[OF a b wsW])
  next
    case False
    then have step: "wrap_words tw mw processed cur (w # ws) =
        wrap_words tw mw processed (cur @ [w]) ws" by (auto simp add: Let_def)
    have "line_ok tw mw W (join_sp (cur @ [w]))"
    proof (cases "cur = []")
      case True
      then show ?thesis using wW by (simp add: line_ok_word)
    next
      case nonempty: False
      with False have "tw (join_sp (cur @ [w])) \<le> mw" by simp
      then show ?thesis by (simp add: line_ok_def)
    qed
    then have b: "cur @ [w] = [] \<or> line_ok tw mw W (join_sp (cur @ [w]))" by simp
    show ?thesis
      unfolding step by (rule Cons.IH[OF Cons.prems(1) b wsW])
  qed
qed

lemma wrap_paragraph_ok:
  assumes "set (split_ws line) \<subseteq> W"
  shows "\<forall>l\<in>set (wrap_paragraph tw mw line). line_ok tw mw W l"
proof -
  obtain p c where pc: "wrap_words tw mw [] [] (split_ws line) = (p, c)"
    by (cases "wrap_words tw mw [] [] (split_ws line)")
  have "(\<forall>l\<in>set p. line_ok tw mw W l) \<and> (c = [] \<or> line_ok tw mw W (join_sp c))"
    using wrap_words_ok[of "[]" tw mw W "[]" "split_ws line"] assms pc by simp
  then show ?thesis using pc by (auto simp: wrap_paragraph_def)
qed

lemma wrap_lines_ok:
  "\<forall>l\<in>set (wrap_lines tw mw [] (split_on newline text)). line_ok tw mw (set (words_of text)) l"
proof -
  have "\<forall>line\<in>set (split_on newline text). \<forall>l\<in>set (wrap_paragraph tw mw line). line_ok tw mw (set (words_of text)) l"
  proof
    fix line assume "line \<in> set (split_on newline text)"
    then have "set (split_ws line) \<subseteq> set (words_of text)"
      by (auto simp: words_of_def)
    then show "\<forall>l\<in>set (wrap_paragraph tw mw line). line_ok tw mw (set (words_of text)) l"
      by (rule wrap_paragraph_ok)
  qed
  then show ?thesis by (auto simp: wrap_lines_concat)
qed

lemma words_of_word: "w \<in> set (words_of text) \<Longrightarrow> w \<noteq> [] \<and> (\<forall>c\<in>set w. \<not> is_space c)"
  using split_ws_word by (auto simp: words_of_def)

lemma join_sp_nonempty: "ws \<noteq> [] \<Longrightarrow> [] \<notin> set ws \<Longrightarrow> join_sp ws \<noteq> []"
  by (induction ws rule: join_sp.induct) auto

lemma wrap_words_nonempty:
  assumes "[] \<notin> set processed" and "[] \<notin> set cur" and "[] \<notin> set ws"
  shows "[] \<notin> set (fst (wrap_words tw mw processed cur ws)) \<and> [] \<notin> set (snd (wrap_words tw mw processed cur ws))"
  using assms
proof (induction ws arbitrary: processed cur)
  case Nil
  then show ?case by simp
next
  case (Cons w ws)
  have w: "[] \<notin> set [w]" and ws: "[] \<notin> set ws" using Cons.prems(3) by auto
  show ?case
  proof (cases "tw (join_sp (cur @ [w])) > mw \<and> cur \<noteq> []")
    case True
    then have step: "wrap_words tw mw processed cur (w # ws) =
        wrap_words tw mw (processed @ [join_sp cur]) [w] ws" by (simp add: Let_def)
    have "join_sp cur \<noteq> []" using True Cons.prems(2) by (simp add: join_sp_nonempty)
    then have a: "[] \<notin> set (processed @ [join_sp cur])" using Cons.prems(1) by auto
    show ?thesis unfolding step by (rule Cons.IH[OF a w ws])
  next
    case False
    then have step: "wrap_words tw mw processed cur (w # ws) =
        wrap_words tw mw processed (cur @ [w]) ws" by (auto simp add: Let_def)
    have b: "[] \<notin> set (cur @ [w])" using Cons.prems(2) w by auto
    show ?thesis unfolding step by (rule Cons.IH[OF Cons.prems(1) b ws])
  qed
qed

lemma wrap_paragraph_nonempty: "[] \<notin> set (wrap_paragraph tw mw line)"
proof -
  obtain p c where pc: "wrap_words tw mw [] [] (split_ws line) = (p, c)"
    by (cases "wrap_words tw mw [] [] (split_ws line)")
  have "[] \<notin> set (split_ws line)" using split_ws_word by blast
  then have "[] \<notin> set p \<and> [] \<notin> set c"
    using wrap_words_nonempty[of "[]" "[]" "split_ws line" tw mw] pc by simp
  then show ?thesis using pc join_sp_nonempty[of c] by (auto simp: wrap_paragraph_def)
qed

lemma wrap_lines_nonempty: "[] \<notin> set (wrap_lines tw mw [] ls)"
  using wrap_paragraph_nonempty by (auto simp: wrap_lines_concat)

lemma wrap_lines_blank_paragraph:
  assumes "\<forall>c\<in>set blank. is_space c"
  shows "wrap_lines tw mw [] (split_on newline (a @ newline # blank @ newline # b)) =
         wrap_lines tw mw [] (split_on newline (a @ newline # b))"
proof -
  have "\<forall>l\<in>set (split_on newline blank). wrap_paragraph tw mw l = []"
  proof
    fix l assume "l \<in> set (split_on newline blank)"
    then have "set l \<subseteq> set blank" by (rule split_on_chars)
    then show "wrap_paragraph tw mw l = []" using assms by (intro wrap_paragraph_blank) auto
  qed
  then have "concat (map (wrap_paragraph tw mw) (split_on newline blank)) = []" by simp
  moreover have "split_on newline (a @ newline # blank @ newline # b) =
      split_on newline a @ split_on newline blank @ split_on newline b"
    using split_on_append[of newline a "blank @ newline # b"] split_on_append[of newline blank b]
    by simp
  ultimately show ?thesis by (simp add: wrap_lines_concat split_on_append)
qed

lemma wrap_lines_blank_text:
  assumes "\<forall>c\<in>set text. is_space c"
  shows "wrap_lines tw mw [] (split_on newline text) = []"
proof -
  have "\<forall>l\<in>set (split_on newline text). wrap_paragraph tw mw l = []"
  proof
    fix l assume "l \<in> set (split_on newline text)"
    then have "set l \<subseteq> set text" by (rule split_on_chars)
    then show "wrap_paragraph tw mw l = []" using assms by (intro wrap_paragraph_blank) auto
  qed
  then show ?thesis by (simp add: wrap_lines_concat)
qed


section \<open>Lemmas: pixels and layers\<close>

lemma channel_opaque:
  "n < 256 \<Longrightarrow> shift_div255 (n * 32640 + 16384) div 128 = n"
  unfolding shift_div255_def by linarith

lemma over_transparent: "over dst (r, g, b, 0) = dst"
  by (cases dst) (simp add: over_def)

lemma word8_channel: "(of_nat (shift_div255 (unat s * 32640 + 16384) div 128) :: 8 word) = s"
proof -
  have "unat s < 256" using unsigned_less[of s] by simp
  then have "shift_div255 (unat s * 32640 + 16384) div 128 = unat s" by (rule channel_opaque)
  then show ?thesis by simp
qed

lemma over_opaque: "over dst (r, g, b, 255) = (r, g, b, 255)"
proof -
  obtain dr dg db da where dst: "dst = (dr, dg, db, da)" by (cases dst) auto
  have a: "(of_nat (shift_div255 65153) :: 8 word) = 255"
    by (simp add: shift_div255_def)
  show ?thesis
    unfolding dst over_def by (simp add: Let_def word8_channel a)
qed

lemma isize_simps [simp]:
  "isize (new_image sz c) = sz"
  "isize (paste lib dst src pos msk) = isize dst"
  "isize (scale_alpha lib op im) = isize im"
  "isize (tint c im) = isize im"
  "isize (draw_text lib img pos line fnt fill sw sf) = isize img"
  by (simp_all add: new_image_def paste_def scale_alpha_def tint_def draw_text_def)



lemma resize_size: "resize lib im sz rs = Inr out \<Longrightarrow> isize out = sz"
  by (auto simp: resize_def split: if_splits)



lemma draw_rectangle_size: "draw_rectangle lib img box fill = Inr out \<Longrightarrow> isize out = isize img"
  by (cases box) (auto simp: draw_rectangle_def split: if_splits)

lemma alpha_composite_size:
  "isize src = isize dst \<Longrightarrow> \<exists>out. alpha_composite dst src = Inr out \<and> isize out = isize dst"
  by (simp add: alpha_composite_def)


lemma alpha_composite_fill:
  "isize dst = sz \<Longrightarrow> alpha_composite dst (new_image sz (opaque c)) = Inr (new_image sz (opaque c))"
proof -
  assume sz: "isize dst = sz"
  obtain r g b a where c: "c = (r, g, b, a)" by (cases c) auto
  have "dst\<lparr>pixel := (\<lambda>p. (r, g, b, 255))\<rparr> = \<lparr>isize = sz, pixel = (\<lambda>p. (r, g, b, 255))\<rparr>"
    using sz by (cases dst) simp
  then show ?thesis
    using sz by (simp add: alpha_composite_def new_image_def opaque_def c over_opaque)
qed




lemma add_background_color_size:
  "isize img = (width, height) \<Longrightarrow>
   add_background_color g img width height = Inr (new_image (width, height) (opaque (background_color g)))"
  by (simp add: add_background_color_def Let_def alpha_composite_fill)


lemma add_pattern_size:
  "add_pattern lib g img width height = Inr out \<Longrightarrow> isize img = (width, height) \<Longrightarrow>
   isize out = (width, height)"
  by (cases "current_pattern g")
     (auto simp: add_pattern_def Let_def alpha_composite_def split: sum.splits if_splits)


section \<open>Lemmas: the caches\<close>

lemma try_fallbacks_first:
  "(case try_fallbacks h sz cs of Inr f \<Rightarrow> f | Inl e \<Rightarrow> DefaultFont) = first_loadable h sz cs"
  by (induction cs) (auto split: sum.splits exn.splits)

lemma get_system_font_first:
  "(case get_system_font h name sz of Inr f \<Rightarrow> f | Inl e \<Rightarrow> DefaultFont) =
     first_loadable h sz (name # get_platform_fallbacks (lower (platform_system h)) name)"
  using try_fallbacks_first[of h sz "get_platform_fallbacks (lower (platform_system h)) name"]
  by (auto simp: get_system_font_def split: sum.splits exn.splits)

lemma load_font_resolve:
  "(case load_font h rs name sz of Inr f \<Rightarrow> f | Inl e \<Rightarrow> DefaultFont) = resolve_font h rs name sz"
  using get_system_font_first[of h name sz]
  by (auto simp: load_font_def resolve_font_def split: option.splits)

lemma map_of_filter_other: "map_of (filter (\<lambda>e. fst e \<noteq> k) m) k = None"
  by (induction m) auto

lemma map_of_filter_same: "map_of (filter (\<lambda>e. fst e = k) m) k = map_of m k"
  by (induction m) auto

lemma map_of_lru_hit: "map_of (lru_hit k m) k = map_of m k"
  by (simp add: lru_hit_def map_of_append map_add_def map_of_filter_other map_of_filter_same
      split: option.splits)

lemma map_of_tl_None: "map_of m k = None \<Longrightarrow> map_of (tl m) k = None"
  by (cases m) (auto split: if_splits)

lemma map_of_lru_store: "map_of m k = None \<Longrightarrow> map_of (lru_store n k v m) k = Some v"
  by (simp add: lru_store_def map_of_append map_add_def map_of_tl_None)

lemma length_lru_hit: "length (lru_hit k m) = length m"
proof -
  have "length (filter (\<lambda>e. fst e \<noteq> k) m) + length (filter (\<lambda>e. fst e = k) m) = length m"
    using sum_length_filter_compl[of "\<lambda>e. fst e \<noteq> k" m] by simp
  then show ?thesis by (simp add: lru_hit_def)
qed

lemma length_lru_store: "0 < n \<Longrightarrow> length m \<le> n \<Longrightarrow> length (lru_store n k v m) \<le> n"
  by (cases m) (auto simp: lru_store_def)

lemma get_pil_font_body_memo [simp]:
  "font_memo (snd (get_pil_font_body h rs name sz)) = font_memo rs"
  by (simp add: get_pil_font_body_def Let_def split: option.splits)

lemma get_pil_font_body_value:
  "fst (get_pil_font_body h rs name sz) =
     (case map_of (fonts rs) (name @ ''_'' @ str sz) of
        Some fnt \<Rightarrow> fnt
      | None \<Rightarrow> resolve_font h rs name sz)"
  by (simp add: get_pil_font_body_def Let_def load_font_resolve split: option.splits)

lemma get_pil_font_value:
  "fst (get_pil_font h rs name sz) =
     (case map_of (font_memo rs) (name, sz) of
        Some fnt \<Rightarrow> fnt
      | None \<Rightarrow>
          (case map_of (fonts rs) (name @ ''_'' @ str sz) of
             Some fnt \<Rightarrow> fnt
           | None \<Rightarrow> resolve_font h rs name sz))"
proof (cases "map_of (font_memo rs) (name, sz)")
  case None
  obtain f rs' where b: "get_pil_font_body h rs name sz = (f, rs')"
    by (cases "get_pil_font_body h rs name sz")
  then have "fst (get_pil_font h rs name sz) = fst (get_pil_font_body h rs name sz)"
    using None by (simp add: get_pil_font_def)
  then show ?thesis using None by (simp add: get_pil_font_body_value)
next
  case (Some f)
  then show ?thesis by (simp add: get_pil_font_def)
qed

lemma get_pil_font_memoised:
  "map_of (font_memo (snd (get_pil_font h rs name sz))) (name, sz) = Some (fst (get_pil_font h rs name sz))"
proof (cases "map_of (font_memo rs) (name, sz)")
  case None
  obtain f rs' where b: "get_pil_font_body h rs name sz = (f, rs')"
    by (cases "get_pil_font_body h rs name sz")
  have "font_memo rs' = font_memo rs" using get_pil_font_body_memo[of h rs name sz] b by simp
  then show ?thesis using None b by (simp add: get_pil_font_def map_of_lru_store)
next
  case (Some f)
  then show ?thesis by (simp add: get_pil_font_def map_of_lru_hit)
qed

lemma get_pil_font_again:
  "fst (get_pil_font h (snd (get_pil_font h rs name sz)) name sz) = fst (get_pil_font h rs name sz)"
  using get_pil_font_memoised[of h rs name sz]
  by (simp add: get_pil_font_value[of h "snd (get_pil_font h rs name sz)"])

lemma get_pil_font_body_fonts:
  "fonts (snd (get_pil_font_body h rs name sz)) =
     (case map_of (fonts rs) (name @ ''_'' @ str sz) of
        Some fnt \<Rightarrow> fonts rs
      | None \<Rightarrow>
          (if length (fonts rs) \<ge> 150
           then drop 50 (fonts rs @ [(name @ ''_'' @ str sz, resolve_font h rs name sz)])
           else fonts rs @ [(name @ ''_'' @ str sz, resolve_font h rs name sz)]))"
  by (auto simp add: get_pil_font_body_def Let_def load_font_resolve split: option.splits)

lemma get_pil_font_fonts:
  "fonts (snd (get_pil_font h rs name sz)) =
     (case map_of (font_memo rs) (name, sz) of
        Some fnt \<Rightarrow> fonts rs
      | None \<Rightarrow> fonts (snd (get_pil_font_body h rs name sz)))"
proof (cases "map_of (font_memo rs) (name, sz)")
  case None
  obtain f rs' where b: "get_pil_font_body h rs name sz = (f, rs')"
    by (cases "get_pil_font_body h rs name sz")
  then show ?thesis using None by (simp add: get_pil_font_def)
next
  case (Some f)
  then show ?thesis by (simp add: get_pil_font_def)
qed

lemma get_pil_font_bounded:
  "length (fonts rs) \<le> 150 \<Longrightarrow> length (fonts (snd (get_pil_font h rs name sz))) \<le> 150"
  by (auto simp: get_pil_font_fonts get_pil_font_body_fonts split: option.splits)

lemma get_pil_font_memo_bounded:
  "length (font_memo rs) \<le> 128 \<Longrightarrow> length (font_memo (snd (get_pil_font h rs name sz))) \<le> 128"
proof (cases "map_of (font_memo rs) (name, sz)")
  case None
  assume le: "length (font_memo rs) \<le> 128"
  obtain f rs' where b: "get_pil_font_body h rs name sz = (f, rs')"
    by (cases "get_pil_font_body h rs name sz")
  have "font_memo rs' = font_memo rs" using get_pil_font_body_memo[of h rs name sz] b by simp
  then show ?thesis using None b le by (simp add: get_pil_font_def length_lru_store)
next
  case (Some f)
  assume "length (font_memo rs) \<le> 128"
  then show ?thesis using Some by (simp add: get_pil_font_def length_lru_hit)
qed

lemma font_requests_bounded:
  "length (fonts rs) \<le> 150 \<Longrightarrow> length (fonts (font_requests h rs reqs)) \<le> 150"
proof (induction reqs arbitrary: rs)
  case Nil
  then show ?case by (simp add: font_requests_def)
next
  case (Cons r reqs)
  obtain name sz where r: "r = (name, sz)" by (cases r)
  have "length (fonts (snd (get_pil_font h rs name sz))) \<le> 150"
    using Cons.prems by (rule get_pil_font_bounded)
  then have "length (fonts (font_requests h (snd (get_pil_font h rs name sz)) reqs)) \<le> 150"
    by (rule Cons.IH)
  then show ?case by (simp add: font_requests_def r)
qed

lemma optimize_small: "thumbnail_fits lib \<Longrightarrow> within_2048 (optimize lib im)"
  by (auto simp: optimize_def thumbnail_fits_def within_2048_def Let_def)

lemma load_image_background:
  "thumbnail_fits lib \<Longrightarrow> load_image lib h ''background'' dir name exts = Inr (Some im) \<Longrightarrow> within_2048 im"
proof (induction exts)
  case Nil
  then show ?case by (simp add: load_image.simps)
next
  case (Cons ext exts)
  show ?case
  proof (cases "path_exists h (dir @ ''/'' @ name @ ext)")
    case True
    with Cons.prems(2) obtain raw where "im = optimize lib raw"
      by (auto simp: load_image.simps Let_def split: sum.splits)
    then show ?thesis using Cons.prems(1) by (simp add: optimize_small)
  next
    case False
    with Cons.prems(2) have "load_image lib h ''background'' dir name exts = Inr (Some im)"
      by (simp add: load_image.simps Let_def)
    then show ?thesis using Cons.IH Cons.prems(1) by blast
  qed
qed

lemma paths_types:
  assumes "map_of (paths h) (t @ ''s'') = Some d"
  shows "t = ''background'' \<or> t = ''pattern'' \<or> t = ''font''"
proof -
  have "t @ ''s'' = ''background'' @ ''s'' \<or> t @ ''s'' = ''pattern'' @ ''s'' \<or> t @ ''s'' = ''font'' @ ''s''"
    using assms by (auto simp: paths_def split: if_splits)
  then show ?thesis by (simp only: append_same_eq)
qed

lemma images_small_snoc:
  assumes "\<forall>(k, im) \<in> set xs. take 11 k = ''background_'' \<longrightarrow> within_2048 im"
    and "take 11 key = ''background_'' \<longrightarrow> within_2048 v"
  shows "\<forall>(k, im) \<in> set (xs @ [(key, v)]). take 11 k = ''background_'' \<longrightarrow> within_2048 im"
  using assms by auto

lemma get_image_body_small:
  assumes fits: "thumbnail_fits lib" and inv: "backgrounds_small rs"
  shows "(\<forall>(k, im) \<in> set (images (snd (get_image_body lib h rs name image_type))).
            take 11 k = ''background_'' \<longrightarrow> within_2048 im) \<and>
         image_memo (snd (get_image_body lib h rs name image_type)) = image_memo rs \<and>
         (\<forall>im. fst (get_image_body lib h rs name image_type) = Some im \<longrightarrow>
               image_type = ''background'' \<longrightarrow> within_2048 im)"
proof -
  let ?key = "image_type @ ''_'' @ name"
  have old: "\<forall>(k, im) \<in> set (images rs). take 11 k = ''background_'' \<longrightarrow> within_2048 im"
    using inv by (simp add: backgrounds_small_def)
  show ?thesis
  proof (cases "name = [] \<or> name = ''None''")
    case True
    then show ?thesis using old by (auto simp: get_image_body_def)
  next
    case named: False
    show ?thesis
    proof (cases "map_of (images rs) ?key")
      case (Some cached)
      then have body: "get_image_body lib h rs name image_type = (Some cached, rs)"
        using named by (simp add: get_image_body_def)
      have "(?key, cached) \<in> set (images rs)" using Some by (rule map_of_SomeD)
      then have "take 11 ?key = ''background_'' \<longrightarrow> within_2048 cached" using old by auto
      then have "image_type = ''background'' \<longrightarrow> within_2048 cached" by simp
      then show ?thesis using old body by simp
    next
      case None
      show ?thesis
      proof (cases "map_of (paths h) (image_type @ ''s'')")
        case nodir: None
        then have "get_image_body lib h rs name image_type = (None, rs)"
          using named None by (simp add: get_image_body_def)
        then show ?thesis using old by simp
      next
        case (Some dir)
        let ?loaded = "load_image lib h image_type dir name [''.png'', ''.jpg'', ''.jpeg'', ''.gif'']"
        have unfold: "get_image_body lib h rs name image_type =
            (case ?loaded of
               Inl e \<Rightarrow> (None, rs)
             | Inr None \<Rightarrow> (None, rs)
             | Inr (Some im) \<Rightarrow> (Some im, rs\<lparr>images := images rs @ [(?key, im)]\<rparr>))"
          using named None Some by (simp add: get_image_body_def split: sum.splits option.splits)
        show ?thesis
        proof (cases ?loaded)
          case (Inl e)
          then show ?thesis using unfold old by simp
        next
          case (Inr r)
          show ?thesis
          proof (cases r)
            case none: None
            then show ?thesis using unfold Inr old by simp
          next
            case (Some im)
            have body: "get_image_body lib h rs name image_type =
                (Some im, rs\<lparr>images := images rs @ [(?key, im)]\<rparr>)"
              using unfold Inr Some by simp
            have ty: "image_type = ''background'' \<or> image_type = ''pattern'' \<or> image_type = ''font''"
              using \<open>map_of (paths h) (image_type @ ''s'') = Some dir\<close> by (rule paths_types)
            have bg: "image_type = ''background'' \<longrightarrow> within_2048 im"
              using load_image_background[OF fits] Inr Some by auto
            have "take 11 ?key = ''background_'' \<longrightarrow> within_2048 im"
              using ty bg by auto
            then have "\<forall>(k, i) \<in> set (images rs @ [(?key, im)]). take 11 k = ''background_'' \<longrightarrow> within_2048 i"
              using old by auto
            then show ?thesis using body bg by simp
          qed
        qed
      qed
    qed
  qed
qed

lemma set_lru_hit: "set (lru_hit k m) = set m"
  by (auto simp: lru_hit_def)

lemma set_lru_store: "set (lru_store n k v m) \<subseteq> insert (k, v) (set m)"
  by (cases m) (auto simp: lru_store_def)

lemma new_resources_small: "backgrounds_small (new_resources scanned)"
  by (simp add: backgrounds_small_def new_resources_def)

lemma get_image_small:
  assumes fits: "thumbnail_fits lib" and inv: "backgrounds_small rs"
  shows "backgrounds_small (snd (get_image lib h rs name image_type)) \<and>
         (\<forall>im. fst (get_image lib h rs name image_type) = Some im \<longrightarrow>
               image_type = ''background'' \<longrightarrow> within_2048 im)"
proof (cases "map_of (image_memo rs) (name, image_type)")
  case (Some r)
  then have g: "get_image lib h rs name image_type =
      (r, rs\<lparr>image_memo := lru_hit (name, image_type) (image_memo rs)\<rparr>)"
    by (simp add: get_image_def)
  have "((name, image_type), r) \<in> set (image_memo rs)" using Some by (rule map_of_SomeD)
  then have "image_type = ''background'' \<longrightarrow> (case r of None \<Rightarrow> True | Some im \<Rightarrow> within_2048 im)"
    using inv by (auto simp: backgrounds_small_def)
  then show ?thesis using inv g by (auto simp: backgrounds_small_def set_lru_hit)
next
  case None
  obtain r rs' where b: "get_image_body lib h rs name image_type = (r, rs')"
    by (cases "get_image_body lib h rs name image_type")
  have g: "get_image lib h rs name image_type =
      (r, rs'\<lparr>image_memo := lru_store 64 (name, image_type) r (image_memo rs')\<rparr>)"
    using None b by (simp add: get_image_def)
  have body: "(\<forall>(k, im) \<in> set (images rs'). take 11 k = ''background_'' \<longrightarrow> within_2048 im) \<and>
         image_memo rs' = image_memo rs \<and>
         (\<forall>im. r = Some im \<longrightarrow> image_type = ''background'' \<longrightarrow> within_2048 im)"
    using get_image_body_small[OF fits inv, of h name image_type] b by simp
  have memo: "\<forall>((n, t), r) \<in> set (image_memo rs). t = ''background'' \<longrightarrow>
          (case r of None \<Rightarrow> True | Some im \<Rightarrow> within_2048 im)"
    using inv by (simp add: backgrounds_small_def)
  have new: "image_type = ''background'' \<longrightarrow> (case r of None \<Rightarrow> True | Some im \<Rightarrow> within_2048 im)"
    using body by (auto split: option.splits)
  have "set (lru_store 64 (name, image_type) r (image_memo rs')) \<subseteq>
      insert ((name, image_type), r) (set (image_memo rs))"
    using set_lru_store[of 64 "(name, image_type)" r "image_memo rs'"] body by simp
  then have "\<forall>((n, t), r') \<in> set (lru_store 64 (name, image_type) r (image_memo rs')). t = ''background'' \<longrightarrow>
          (case r' of None \<Rightarrow> True | Some im \<Rightarrow> within_2048 im)"
    using new memo by blast
  then have "backgrounds_small (rs'\<lparr>image_memo := lru_store 64 (name, image_type) r (image_memo rs')\<rparr>)"
    using body by (simp add: backgrounds_small_def)
  then show ?thesis using g body by simp
qed

lemma upload_background_small:
  assumes "thumbnail_fits lib" and "fst (upload_background lib g upload) = Uploaded"
  shows "\<exists>im. background_image (snd (upload_background lib g upload)) = Some im \<and> within_2048 im"
proof -
  obtain filename img where up: "upload = Some (filename, Inr img)"
    and ok: "filename \<noteq> []" "allowed_file filename"
    using assms(2)
    by (auto simp: upload_background_def split: option.splits if_splits sum.splits)
  show ?thesis
    using assms(1) ok
    by (auto simp: up upload_background_def Let_def thumbnail_fits_def within_2048_def)
qed

lemma get_image_body_grows:
  "\<exists>added. images (snd (get_image_body lib h rs name image_type)) = images rs @ added"
  by (auto simp: get_image_body_def Let_def split: option.splits sum.splits)

lemma get_image_grows:
  "\<exists>added. images (snd (get_image lib h rs name image_type)) = images rs @ added"
proof (cases "map_of (image_memo rs) (name, image_type)")
  case None
  obtain r rs' where b: "get_image_body lib h rs name image_type = (r, rs')"
    by (cases "get_image_body lib h rs name image_type")
  then have "images (snd (get_image lib h rs name image_type)) = images rs'"
    using None by (simp add: get_image_def)
  then show ?thesis using get_image_body_grows[of lib h rs name image_type] b by simp
next
  case (Some r)
  then show ?thesis by (simp add: get_image_def)
qed

lemma scaled_side: "0 < b \<Longrightarrow> a \<le> b \<Longrightarrow> 0 \<le> c \<Longrightarrow> a * c div b \<le> (c::int)"
proof -
  assume b: "0 < b" and ab: "a \<le> b" and c: "0 \<le> c"
  have "a * c \<le> b * c" using ab c by (rule mult_right_mono)
  then have "a * c div b \<le> b * c div b" using b by (rule zdiv_mono1)
  then show ?thesis using b by simp
qed

lemma fit_within_fits: "thumbnail_fits block_pil"
proof -
  have "within_2048 (fit_within im (2048, 2048) rs)" for im rs
  proof -
    let ?w = "fst (isize im)" and ?h = "snd (isize im)"
    show ?thesis
    proof (cases "?w \<le> 2048 \<and> ?h \<le> 2048")
      case True
      then show ?thesis by (simp add: fit_within_def within_2048_def Let_def)
    next
      case False
      show ?thesis
      proof (cases "?h * 2048 \<le> ?w * 2048")
        case wide: True
        then have "0 < ?w" "?h \<le> ?w" using False by auto
        then have "?h * 2048 div ?w \<le> 2048" by (intro scaled_side) auto
        then show ?thesis using False wide by (simp add: fit_within_def within_2048_def Let_def)
      next
        case tall: False
        then have "0 < ?h" "?w \<le> ?h" using False by auto
        then have "?w * 2048 div ?h \<le> 2048" by (intro scaled_side) auto
        then show ?thesis using False tall by (simp add: fit_within_def within_2048_def Let_def)
      qed
    qed
  qed
  then show ?thesis by (simp add: thumbnail_fits_def block_pil_def)
qed

lemma gallery_names_Suc: "gallery_names (Suc k) = gallery_names k @ [replicate (Suc k) (CHR ''a'')]"
  by (simp add: gallery_names_def)

lemma in_gallery_names: "name \<in> set (gallery_names n) \<longleftrightarrow> (\<exists>j<n. name = replicate (Suc j) (CHR ''a''))"
  by (auto simp: gallery_names_def)

lemma map_of_None_keys: "k \<notin> fst ` set m \<Longrightarrow> map_of m k = None"
  by (simp add: map_of_eq_None_iff)

lemma gallery_step:
  assumes k: "k < n"
    and im: "images rs = map (\<lambda>name. (''pattern_'' @ name, tile)) (gallery_names k)"
    and memo: "fst ` set (image_memo rs) \<subseteq> (\<lambda>name. (name, ''pattern'')) ` set (gallery_names k)"
  shows "images (snd (get_pattern_image lib (gallery n) rs (replicate (Suc k) (CHR ''a'')))) =
           map (\<lambda>name. (''pattern_'' @ name, tile)) (gallery_names (Suc k)) \<and>
         fst ` set (image_memo (snd (get_pattern_image lib (gallery n) rs (replicate (Suc k) (CHR ''a''))))) \<subseteq>
           (\<lambda>name. (name, ''pattern'')) ` set (gallery_names (Suc k))"
proof -
  let ?name = "replicate (Suc k) (CHR ''a'')"
  have fresh: "?name \<notin> set (gallery_names k)" by (auto simp: in_gallery_names)
  have miss: "map_of (image_memo rs) (?name, ''pattern'') = None"
    using memo fresh by (intro map_of_None_keys) auto
  have nocache: "map_of (images rs) (''pattern_'' @ ?name) = None"
    using fresh by (intro map_of_None_keys) (auto simp: im image_iff)
  have there: "path_exists (gallery n) (''/app/static/patterns'' @ ''/'' @ ?name @ ''.png'')"
    using k by (auto simp: gallery_def in_gallery_names image_iff)
  have load: "load_image lib (gallery n) ''pattern'' ''/app/static/patterns'' ?name
      [''.png'', ''.jpg'', ''.jpeg'', ''.gif''] = Inr (Some tile)"
    using there by (simp add: load_image.simps Let_def gallery_def)
  have dir: "map_of (paths (gallery n)) (''pattern'' @ ''s'') = Some ''/app/static/patterns''"
    by (simp add: paths_def gallery_def)
  have body: "get_image_body lib (gallery n) rs ?name ''pattern'' =
      (Some tile, rs\<lparr>images := images rs @ [(''pattern_'' @ ?name, tile)]\<rparr>)"
    unfolding get_image_body_def Let_def using nocache dir load by simp
  have g: "get_pattern_image lib (gallery n) rs ?name =
      (Some tile, rs\<lparr>images := images rs @ [(''pattern_'' @ ?name, tile)],
                    image_memo := lru_store 64 (?name, ''pattern'') (Some tile) (image_memo rs)\<rparr>)"
    using miss body by (simp add: get_pattern_image_def get_image_def)
  have "fst ` set (lru_store 64 (?name, ''pattern'') (Some tile) (image_memo rs)) \<subseteq>
      insert (?name, ''pattern'') (fst ` set (image_memo rs))"
    using set_lru_store[of 64 "(?name, ''pattern'')" "Some tile" "image_memo rs"] by auto
  then have "fst ` set (lru_store 64 (?name, ''pattern'') (Some tile) (image_memo rs)) \<subseteq>
      (\<lambda>name. (name, ''pattern'')) ` set (gallery_names (Suc k))"
    using memo by (auto simp: gallery_names_Suc)
  then show ?thesis using g im by (simp add: gallery_names_Suc)
qed

lemma load_patterns_snoc:
  "load_patterns lib h rs (names @ [name]) = snd (get_pattern_image lib h (load_patterns lib h rs names) name)"
  by (simp add: load_patterns_def)

lemma gallery_loaded:
  "k \<le> n \<Longrightarrow>
   images (load_patterns lib (gallery n) (new_resources scanned) (gallery_names k)) =
     map (\<lambda>name. (''pattern_'' @ name, tile)) (gallery_names k) \<and>
   fst ` set (image_memo (load_patterns lib (gallery n) (new_resources scanned) (gallery_names k))) \<subseteq>
     (\<lambda>name. (name, ''pattern'')) ` set (gallery_names k)"
proof (induction k)
  case 0
  then show ?case by (simp add: gallery_names_def load_patterns_def new_resources_def)
next
  case (Suc k)
  then have k: "k < n" and ih:
    "images (load_patterns lib (gallery n) (new_resources scanned) (gallery_names k)) =
       map (\<lambda>name. (''pattern_'' @ name, tile)) (gallery_names k)"
    "fst ` set (image_memo (load_patterns lib (gallery n) (new_resources scanned) (gallery_names k))) \<subseteq>
       (\<lambda>name. (name, ''pattern'')) ` set (gallery_names k)"
    by auto
  show ?case
    unfolding gallery_names_Suc load_patterns_snoc
    using gallery_step[OF k ih] unfolding gallery_names_Suc .
qed

lemma gallery_151:
  "length (images (load_patterns block_pil (gallery 151) (new_resources []) (gallery_names 151))) = 151"
  using gallery_loaded[of 151 151 block_pil "[]"] by (simp add: gallery_names_def)

lemma get_image_body_memo:
  "image_memo (snd (get_image_body lib h rs name image_type)) = image_memo rs"
  by (auto simp: get_image_body_def Let_def split: option.splits sum.splits)

lemma get_image_memo_bounded:
  assumes "length (image_memo rs) \<le> 64"
  shows "length (image_memo (snd (get_image lib h rs name image_type))) \<le> 64"
proof (cases "map_of (image_memo rs) (name, image_type)")
  case None
  obtain r rs' where b: "get_image_body lib h rs name image_type = (r, rs')"
    by (cases "get_image_body lib h rs name image_type")
  have "image_memo rs' = image_memo rs" using get_image_body_memo[of lib h rs name image_type] b by simp
  then show ?thesis using None b assms by (simp add: get_image_def length_lru_store)
next
  case (Some f)
  then show ?thesis using assms by (simp add: get_image_def length_lru_hit)
qed


section \<open>Lemmas: the pipeline\<close>

lemma draw_lines_enumerate:
  "draw_lines lib g fnt width align sp img (y0 + int k * (font_size g + sp)) ls =
     foldl (\<lambda>c (i, line).
              draw_text lib c
                (calculate_text_x_position lib g line fnt width (Some align),
                 y0 + int i * (font_size g + sp))
                line fnt (opaque (text_color g)) (text_stroke_width g) (opaque (text_stroke_color g)))
       img (enumerate k ls)"
proof (induction ls arbitrary: img k)
  case Nil
  show ?case by simp
next
  case (Cons l ls)
  have y: "y0 + int k * (font_size g + sp) + font_size g + sp = y0 + int (Suc k) * (font_size g + sp)"
    by (simp add: algebra_simps)
  show ?case
    by (simp add: Let_def y Cons.IH[of _ "Suc k"] del: of_nat_Suc)
qed

lemma draw_lines_glyph_layer:
  "draw_lines lib g fnt width (text_alignment g) (pct_of lib (font_size g) (line_spacing_factor g)) img
     (text_y_position g height (block_height lib g lines)) lines =
   glyph_layer lib g fnt lines (width, height) img"
  using draw_lines_enumerate[of lib g fnt width "text_alignment g"
      "pct_of lib (font_size g) (line_spacing_factor g)" img
      "text_y_position g height (block_height lib g lines)" 0 lines]
  by (simp add: glyph_layer_def)

lemma draw_text_box_layer:
  "text_box_enabled g \<Longrightarrow>
   draw_text_box lib g img lines (widest_line lib fnt lines) width height
     (text_y_position g height (block_height lib g lines)) =
   box_layer lib g fnt lines (width, height) img"
  by (cases "text_box_color g") (simp add: draw_text_box_def box_layer_def block_height_def Let_def)

lemma add_text_layers:
  "fst (add_text lib h g ss img display_text width height) =
     (case box_layer lib g (render_font h g ss) (render_lines lib h g ss display_text width)
             (width, height) img of
        Inl e \<Rightarrow> Inl e
      | Inr boxed \<Rightarrow>
          Inr (glyph_layer lib g (render_font h g ss) (render_lines lib h g ss display_text width)
                 (width, height) boxed))"
proof -
  obtain fnt rs1 where f: "get_pil_font h (manager ss) (font_name g) (font_size g) = (fnt, rs1)"
    by (cases "get_pil_font h (manager ss) (font_name g) (font_size g)") auto
  obtain lines ss2 where
    l: "wrap_text lib h (ss\<lparr>manager := rs1\<rparr>) display_text (font_name g) (font_size g)
          (width - text_margins g * 2) = (lines, ss2)"
    by (cases "wrap_text lib h (ss\<lparr>manager := rs1\<rparr>) display_text (font_name g) (font_size g)
          (width - text_margins g * 2)") auto
  have rf: "render_font h g ss = fnt" by (simp add: render_font_def f)
  have rl: "render_lines lib h g ss display_text width = lines" by (simp add: render_lines_def f l)
  have h: "int (length lines) * (font_size g + pct_of lib (font_size g) (line_spacing_factor g))
      - pct_of lib (font_size g) (line_spacing_factor g) = block_height lib g lines"
    by (simp add: block_height_def)
  show ?thesis
  proof (cases "text_box_enabled g")
    case True
    have w: "foldl (\<lambda>m line. max m (text_width lib fnt line)) 0 lines = widest_line lib fnt lines"
      by (simp add: widest_line_def)
    show ?thesis
      unfolding rf rl add_text_def f l prod.case Let_def h
      using True by (simp add: w draw_text_box_layer draw_lines_glyph_layer split: sum.splits)
  next
    case False
    then have b: "box_layer lib g fnt lines (width, height) img = Inr img"
      by (simp add: box_layer_def)
    show ?thesis
      unfolding rf rl add_text_def f l prod.case Let_def h b
      using False by (simp add: draw_lines_glyph_layer)
  qed
qed

lemma add_text_session:
  "snd (add_text lib h g ss img display_text width height) =
     snd (wrap_text lib h (ss\<lparr>manager := snd (get_pil_font h (manager ss) (font_name g) (font_size g))\<rparr>)
            display_text (font_name g) (font_size g) (width - text_margins g * 2))"
  by (simp add: add_text_def Let_def split: prod.splits sum.splits)

lemma add_background_color_fill_layer:
  "add_background_color g img width height = fill_layer g (width, height) img"
  by (cases img) (auto simp: add_background_color_def fill_layer_def alpha_composite_def new_image_def
        Let_def opaque_def over_opaque split: prod.splits)

lemma add_background_image_picture_layer:
  "add_background_image lib g img width height = picture_layer lib g (width, height) img"
proof (cases "background_image g")
  case None
  then show ?thesis by (simp add: add_background_image_def picture_layer_def)
next
  case (Some bg)
  show ?thesis
    unfolding add_background_image_def picture_layer_def Some option.case Let_def scaled_def
      placed_def with_opacity_def filter_for_def
    by (auto split: sum.splits dest: resize_size)
qed

lemma add_pattern_pattern_layer:
  "add_pattern lib g img width height = pattern_layer lib g (width, height) img"
proof (cases "current_pattern g")
  case None
  then show ?thesis by (simp add: add_pattern_def pattern_layer_def)
next
  case (Some pat)
  show ?thesis
    unfolding add_pattern_def pattern_layer_def Some option.case Let_def scaled_def
      placed_def with_opacity_def filter_for_def
    by (auto split: sum.splits dest: resize_size)
qed

lemma apply_layers_append:
  "apply_layers lib g fnt lines frame (ls @ ms) img =
     (case apply_layers lib g fnt lines frame ls img of
        Inl e \<Rightarrow> Inl e
      | Inr img' \<Rightarrow> apply_layers lib g fnt lines frame ms img')"
  by (induction ls arbitrary: img) (auto split: sum.splits)

lemma generate_thumbnail_layers:
  "fst (generate_thumbnail lib h g ss text number width height) =
     map_sum id (\<lambda>img. (img, filename_base g @ str number))
       (render_layers lib g (render_font h g ss)
          (render_lines lib h g ss (replace_char (CHR ''^'') (str number) text) width)
          (width, height) layers_in_order)"
  unfolding generate_thumbnail_def render_layers_def layers_in_order_def Let_def split_beta
  by (auto simp: apply_layer_def add_background_color_fill_layer add_background_image_picture_layer
        add_pattern_pattern_layer add_text_layers split: sum.splits)



lemma generate_thumbnail_session:
  "snd (generate_thumbnail lib h g ss text number width height) = ss \<or>
   snd (generate_thumbnail lib h g ss text number width height) =
     snd (wrap_text lib h (ss\<lparr>manager := snd (get_pil_font h (manager ss) (font_name g) (font_size g))\<rparr>)
            (replace_char (CHR ''^'') (str number) text) (font_name g) (font_size g)
            (width - text_margins g * 2))"
proof -
  have "snd (generate_thumbnail lib h g ss text number width height) = ss \<or>
      (\<exists>img. snd (generate_thumbnail lib h g ss text number width height) =
         snd (add_text lib h g ss img (replace_char (CHR ''^'') (str number) text) width height))"
    by (auto simp: generate_thumbnail_def Let_def split_beta split: sum.splits)
  then show ?thesis by (auto simp: add_text_session)
qed

lemma draw_lines_fields:
  assumes "text_margins g' = text_margins g" "text_x_offset g' = text_x_offset g"
    "text_color g' = text_color g" "text_stroke_width g' = text_stroke_width g"
    "text_stroke_color g' = text_stroke_color g" "font_size g' = font_size g"
  shows "draw_lines lib g' fnt width align sp img y ls = draw_lines lib g fnt width align sp img y ls"
  using assms
  by (induction ls arbitrary: img y) (simp_all add: calculate_text_x_position_def Let_def)

lemma draw_text_box_fields:
  assumes "text_alignment g' = text_alignment g" "text_margins g' = text_margins g"
    "text_x_offset g' = text_x_offset g" "text_box_padding g' = text_box_padding g"
    "text_box_color g' = text_box_color g" "font_size g' = font_size g"
    "line_spacing_factor g' = line_spacing_factor g"
  shows "draw_text_box lib g' img ls m width height y = draw_text_box lib g img ls m width height y"
  unfolding draw_text_box_def box_x_def assms by (rule refl)

lemma add_text_fields:
  assumes "text_alignment g' = text_alignment g" "text_margins g' = text_margins g"
    "text_x_offset g' = text_x_offset g" "text_y_offset g' = text_y_offset g"
    "text_box_padding g' = text_box_padding g" "text_box_enabled g' = text_box_enabled g"
    "text_box_color g' = text_box_color g" "font_size g' = font_size g"
    "font_name g' = font_name g"
    "line_spacing_factor g' = line_spacing_factor g"
    "text_color g' = text_color g" "text_stroke_width g' = text_stroke_width g"
    "text_stroke_color g' = text_stroke_color g"
  shows "add_text lib h g' ss img d width height = add_text lib h g ss img d width height"
proof -
  have dl: "\<And>fnt al sp im y ls. draw_lines lib g' fnt width al sp im y ls = draw_lines lib g fnt width al sp im y ls"
    using assms by (intro draw_lines_fields) simp_all
  have db: "\<And>im ls m y. draw_text_box lib g' im ls m width height y = draw_text_box lib g im ls m width height y"
    using assms by (intro draw_text_box_fields) simp_all
  show ?thesis
    unfolding add_text_def text_y_position_def dl db assms by (rule refl)
qed

lemma add_pattern_fields:
  assumes "current_pattern g' = current_pattern g" "pattern_scale g' = pattern_scale g"
    "pattern_x_offset g' = pattern_x_offset g" "pattern_y_offset g' = pattern_y_offset g"
    "pattern_color_enabled g' = pattern_color_enabled g" "pattern_color g' = pattern_color g"
    "pattern_opacity g' = pattern_opacity g"
  shows "add_pattern lib g' img width height = add_pattern lib g img width height"
  unfolding add_pattern_def assms by (rule refl)

lemma add_background_image_fields:
  assumes "background_image g' = background_image g" "bg_image_scale g' = bg_image_scale g"
    "bg_image_x_offset g' = bg_image_x_offset g" "bg_image_y_offset g' = bg_image_y_offset g"
    "background_opacity g' = background_opacity g"
  shows "add_background_image lib g' img width height = add_background_image lib g img width height"
  unfolding add_background_image_def assms by (rule refl)

lemma add_background_image_None:
  "background_image g = None \<Longrightarrow> add_background_image lib g img width height = Inr img"
  by (simp add: add_background_image_def)

lemma add_background_color_fields:
  "opaque (background_color g') = opaque (background_color g) \<Longrightarrow>
   add_background_color g' img width height = add_background_color g img width height"
  by (simp add: add_background_color_def)

lemma generate_thumbnail_fields:
  assumes "\<And>img. add_background_color g' img width height = add_background_color g img width height"
    and "\<And>img. add_background_image lib g' img width height = add_background_image lib g img width height"
    and "\<And>img. add_pattern lib g' img width height = add_pattern lib g img width height"
    and "\<And>img d. add_text lib h g' ss img d width height = add_text lib h g ss img d width height"
    and "filename_base g' = filename_base g"
  shows "generate_thumbnail lib h g' ss t n width height = generate_thumbnail lib h g ss t n width height"
  unfolding generate_thumbnail_def assms by (rule refl)

lemma generate_thumbnail_opacity:
  assumes "background_image g = None"
  shows "generate_thumbnail lib h (g\<lparr>background_opacity := a\<rparr>) ss t n width height =
         generate_thumbnail lib h g ss t n width height"
proof (rule generate_thumbnail_fields)
  show "add_background_color (g\<lparr>background_opacity := a\<rparr>) img width height =
        add_background_color g img width height" for img
    by (rule add_background_color_fields) simp
  show "add_background_image lib (g\<lparr>background_opacity := a\<rparr>) img width height =
        add_background_image lib g img width height" for img
    using assms by (simp add: add_background_image_None)
  show "add_pattern lib (g\<lparr>background_opacity := a\<rparr>) img width height =
        add_pattern lib g img width height" for img
    by (intro add_pattern_fields) simp_all
  show "add_text lib h (g\<lparr>background_opacity := a\<rparr>) ss img d width height =
        add_text lib h g ss img d width height" for img d
    by (intro add_text_fields) simp_all
  show "filename_base (g\<lparr>background_opacity := a\<rparr>) = filename_base g" by simp
qed

lemma generate_thumbnail_color_alpha:
  "generate_thumbnail lib h (g\<lparr>background_color := (r, gr, bl, a)\<rparr>) ss t n width height =
   generate_thumbnail lib h (g\<lparr>background_color := (r, gr, bl, a')\<rparr>) ss t n width height"
proof (rule generate_thumbnail_fields)
  show "add_background_color (g\<lparr>background_color := (r, gr, bl, a)\<rparr>) img width height =
        add_background_color (g\<lparr>background_color := (r, gr, bl, a')\<rparr>) img width height" for img
    by (rule add_background_color_fields) (simp add: opaque_def)
  show "add_background_image lib (g\<lparr>background_color := (r, gr, bl, a)\<rparr>) img width height =
        add_background_image lib (g\<lparr>background_color := (r, gr, bl, a')\<rparr>) img width height" for img
    by (intro add_background_image_fields) simp_all
  show "add_pattern lib (g\<lparr>background_color := (r, gr, bl, a)\<rparr>) img width height =
        add_pattern lib (g\<lparr>background_color := (r, gr, bl, a')\<rparr>) img width height" for img
    by (intro add_pattern_fields) simp_all
  show "add_text lib h (g\<lparr>background_color := (r, gr, bl, a)\<rparr>) ss img d width height =
        add_text lib h (g\<lparr>background_color := (r, gr, bl, a')\<rparr>) ss img d width height" for img d
    by (intro add_text_fields) simp_all
  show "filename_base (g\<lparr>background_color := (r, gr, bl, a)\<rparr>) =
        filename_base (g\<lparr>background_color := (r, gr, bl, a')\<rparr>)" by simp
qed



section \<open>Lemmas: the concrete library and host\<close>

lemma lower_Linux: "lower ''Linux'' = ''linux''"
  by code_simp

lemma lower_impact: "lower ''impact'' = ''impact''"
  by code_simp

lemma studio_Brand: "fst (get_pil_font studio studio_resources ''Brand'' 40) = DefaultFont"
  by (simp add: get_pil_font_value resolve_font_def studio_def studio_resources_def new_resources_def)

lemma studio_Brand_system: "truetype studio ''Brand'' 40 = Inr (FreeTypeFont ''Brand'' 40)"
  by (simp add: studio_def)

lemma studio_impact_fallbacks: "get_platform_fallbacks (lower (platform_system studio)) ''impact'' =
   [''DejaVuSans.ttf'', ''liberation-sans.ttf'', ''Ubuntu-R.ttf'',
         ''/usr/share/fonts/truetype/dejavu/DejaVuSans.ttf'',
         ''/usr/share/fonts/truetype/liberation/LiberationSans-Regular.ttf'']"
  by (simp add: studio_def lower_Linux get_platform_fallbacks_def)

lemma studio_big_pattern: "fst (get_pattern_image block_pil studio studio_resources ''big'') = Some photo"
  by (simp add: get_pattern_image_def get_image_def get_image_body_def studio_resources_def
        new_resources_def paths_def studio_def load_image.simps Let_def)

lemma photo_size: "isize photo = (4000, 3000)"
  by (simp add: photo_def)

lemma studio_Arial: "fst (get_pil_font studio studio_resources ''Arial'' 100) = FreeTypeFont ''DejaVuSans.ttf'' 100"
  by (simp add: get_pil_font_value resolve_font_def studio_def studio_resources_def new_resources_def
        lower_Linux get_platform_fallbacks_def)

lemma top_left_box_x: "box_x (initialize_defaults\<lparr>text_alignment := ''top_left'', text_box_enabled := True\<rparr>) 400 1280 = 760"
  by (simp add: box_x_def initialize_defaults_def)

lemma top_left_text_x: "calculate_text_x_position block_pil
     (initialize_defaults\<lparr>text_alignment := ''top_left'', text_box_enabled := True\<rparr>)
     (replicate 40 (CHR ''a'')) DefaultFont 1280 None = 100"
  by (simp add: calculate_text_x_position_def initialize_defaults_def Let_def)



lemma block_wrap_example: "wrap_lines (\<lambda>s. 10 * int (length s)) 50 [] (split_on newline ''aa bb cc'') = [''aa bb'', ''cc'']"
  by (simp add: newline_def split_ws_def is_space_def Let_def)

lemma block_width: "text_width block_pil fnt s = glyph_width fnt * int (length s)"
  by (simp add: text_width_def block_pil_def)

lemma block_width_fn: "text_width block_pil fnt = (\<lambda>s. glyph_width fnt * int (length s))"
  by (rule ext) (rule block_width)

lemma str_3: "str 3 = ''3''" by (simp add: str_def digits.simps)


lemma str_100: "str 100 = ''100''" by (simp add: str_def digits.simps)

lemma lower_Impact: "lower ''Impact'' = ''impact''" by code_simp

lemma allowed_big: "allowed_file ''big.PNG''" by code_simp

lemma fit_photo: "isize (fit_within photo (2048, 2048) LANCZOS) = (2048, 1536)"
  by (simp add: fit_within_def photo_def Let_def)

lemma studio_big_background:
  "fst (get_background_image block_pil studio studio_resources ''big'') =
     Some (fit_within photo (2048, 2048) LANCZOS)"
  by (simp add: get_background_image_def get_image_def get_image_body_def studio_resources_def
        new_resources_def paths_def studio_def load_image.simps optimize_def Let_def photo_def
        block_pil_def)



section \<open>Lemmas: the caches of a session\<close>

lemma digits_chars: "set (digits n) \<subseteq> set ''0123456789''"
proof (induction n rule: digits.induct)
  case (1 n)
  have d: "k < 10 \<Longrightarrow> ''0123456789'' ! k \<in> set ''0123456789''" for k
    by (rule nth_mem) simp
  show ?case
  proof (cases "n < 10")
    case True
    then show ?thesis using d[of n] by (subst digits.simps) simp
  next
    case False
    have "n mod 10 < 10" by simp
    then show ?thesis using False 1 d[of "n mod 10"] by (subst digits.simps) simp
  qed
qed

lemma digits_nonempty: "digits n \<noteq> []"
  by (subst digits.simps) simp

lemma digit_inj:
  assumes "a < 10" and "b < 10" and "''0123456789'' ! a = ''0123456789'' ! b"
  shows "a = b"
proof -
  have "distinct ''0123456789''" by simp
  then show ?thesis using assms by (simp add: nth_eq_iff_index_eq)
qed

lemma digits_inj: "digits n = digits m \<Longrightarrow> n = m"
proof (induction n arbitrary: m rule: digits.induct)
  case (1 n)
  show ?case
  proof (cases "n < 10")
    case n: True
    show ?thesis
    proof (cases "m < 10")
      case True
      then show ?thesis using n 1(2) digit_inj[of n m] by (simp add: digits.simps[of n] digits.simps[of m])
    next
      case False
      then have "length (digits m) \<ge> 2"
        using digits_nonempty[of "m div 10"] by (cases "digits (m div 10)") (simp_all add: digits.simps[of m])
      moreover have "length (digits n) = 1" using n by (simp add: digits.simps[of n])
      ultimately show ?thesis using 1(2) by simp
    qed
  next
    case n: False
    show ?thesis
    proof (cases "m < 10")
      case True
      have "length (digits n) \<ge> 2"
        using n digits_nonempty[of "n div 10"] by (cases "digits (n div 10)") (simp_all add: digits.simps[of n])
      moreover have "length (digits m) = 1" using True by (simp add: digits.simps[of m])
      ultimately show ?thesis using 1(2) by simp
    next
      case False
      have "digits (n div 10) @ [''0123456789'' ! (n mod 10)] = digits (m div 10) @ [''0123456789'' ! (m mod 10)]"
        using 1(2) n False by (simp add: digits.simps[of n] digits.simps[of m])
      then have a: "digits (n div 10) = digits (m div 10)"
        and b: "''0123456789'' ! (n mod 10) = ''0123456789'' ! (m mod 10)" by simp_all
      have "n div 10 = m div 10" using 1(1)[OF n a] .
      moreover have "n mod 10 = m mod 10" using b by (intro digit_inj) simp_all
      ultimately show ?thesis by (metis div_mult_mod_eq)
    qed
  qed
qed

lemma str_inj: "str a = str b \<Longrightarrow> a = b"
proof -
  assume eq: "str a = str b"
  have nd: "CHR ''-'' \<notin> set (digits k)" for k using digits_chars[of k] by auto
  have hd: "digits k \<noteq> CHR ''-'' # xs" "CHR ''-'' # xs \<noteq> digits k" for k xs
    using nd[of k] by (cases "digits k"; auto)+
  show ?thesis
  proof (cases "a < 0")
    case a: True
    show ?thesis
    proof (cases "b < 0")
      case True
      then have "nat (- a) = nat (- b)" using eq a by (simp add: str_def digits_inj)
      then show ?thesis using a True by simp
    next
      case False
      then show ?thesis using eq a hd(2)[of _ "nat b"] by (auto simp: str_def)
    qed
  next
    case a: False
    show ?thesis
    proof (cases "b < 0")
      case True
      then show ?thesis using eq a hd(1)[of "nat a"] by (auto simp: str_def)
    next
      case False
      then have "nat a = nat b" using eq a by (simp add: str_def digits_inj)
      then show ?thesis using a False by simp
    qed
  qed
qed

lemma str_no_underscore: "CHR ''_'' \<notin> set (str s)"
  using digits_chars[of "nat s"] digits_chars[of "nat (- s)"] by (auto simp: str_def)

lemma last_separator:
  "c \<notin> set a \<Longrightarrow> c \<notin> set b \<Longrightarrow> xs @ c # a = ys @ c # b \<Longrightarrow> xs = ys \<and> a = b"
proof (induction xs arbitrary: ys)
  case Nil
  then show ?case by (cases ys) auto
next
  case (Cons x xs)
  show ?case
  proof (cases ys)
    case Nil
    then show ?thesis using Cons.prems by auto
  next
    case (Cons y ys')
    then show ?thesis using Cons.prems Cons.IH[of ys'] by auto
  qed
qed

lemma font_key_inj:
  "n @ ''_'' @ str s = n' @ ''_'' @ str s' \<Longrightarrow> n = n' \<and> s = s'"
  using last_separator[of "CHR ''_''" "str s" "str s'" n n'] str_no_underscore str_inj by auto

lemma resolve_font_paths:
  "font_paths rs' = font_paths rs \<Longrightarrow> resolve_font h rs' n s = resolve_font h rs n s"
  by (simp add: resolve_font_def)

lemma get_pil_font_body_paths [simp]:
  "font_paths (snd (get_pil_font_body h rs name sz)) = font_paths rs"
  by (simp add: get_pil_font_body_def Let_def split: option.splits)

lemma get_pil_font_paths [simp]:
  "font_paths (snd (get_pil_font h rs name sz)) = font_paths rs"
proof (cases "map_of (font_memo rs) (name, sz)")
  case None
  obtain f rs' where b: "get_pil_font_body h rs name sz = (f, rs')"
    by (cases "get_pil_font_body h rs name sz")
  have "font_paths rs' = font_paths rs" using get_pil_font_body_paths[of h rs name sz] b by simp
  then show ?thesis using None b by (simp add: get_pil_font_def)
next
  case (Some f)
  then show ?thesis by (simp add: get_pil_font_def)
qed

lemma coherent_value:
  assumes "fonts_coherent h rs"
  shows "fst (get_pil_font h rs n s) = resolve_font h rs n s"
proof (cases "map_of (font_memo rs) (n, s)")
  case (Some f)
  then have "((n, s), f) \<in> set (font_memo rs)" by (rule map_of_SomeD)
  then have "f = resolve_font h rs n s" using assms by (auto simp: fonts_coherent_def)
  then show ?thesis using Some by (simp add: get_pil_font_value)
next
  case None
  show ?thesis
  proof (cases "map_of (fonts rs) (n @ ''_'' @ str s)")
    case (Some f)
    then have "(n @ ''_'' @ str s, f) \<in> set (fonts rs)" by (rule map_of_SomeD)
    then have "f = resolve_font h rs n s" using assms by (auto simp: fonts_coherent_def)
    then show ?thesis using None Some by (simp add: get_pil_font_value)
  next
    case n2: None
    then show ?thesis using None by (simp add: get_pil_font_value)
  qed
qed

lemma get_pil_font_memo_set:
  "set (font_memo (snd (get_pil_font h rs n s))) \<subseteq>
     insert ((n, s), fst (get_pil_font h rs n s)) (set (font_memo rs))"
proof (cases "map_of (font_memo rs) (n, s)")
  case None
  obtain f rs' where b: "get_pil_font_body h rs n s = (f, rs')"
    by (cases "get_pil_font_body h rs n s")
  have "font_memo rs' = font_memo rs" using get_pil_font_body_memo[of h rs n s] b by simp
  then show ?thesis using None b set_lru_store[of 128 "(n, s)" f "font_memo rs"]
    by (simp add: get_pil_font_def)
next
  case (Some f)
  then show ?thesis by (auto simp: get_pil_font_def set_lru_hit)
qed

lemma get_pil_font_fonts_set:
  "set (fonts (snd (get_pil_font h rs n s))) \<subseteq>
     insert (n @ ''_'' @ str s, resolve_font h rs n s) (set (fonts rs))"
  by (auto simp: get_pil_font_fonts get_pil_font_body_fonts split: option.splits if_splits
        dest: in_set_dropD)

lemma coherent_step:
  assumes "fonts_coherent h rs"
  shows "fonts_coherent h (snd (get_pil_font h rs n s))"
proof -
  let ?rs = "snd (get_pil_font h rs n s)"
  have r: "resolve_font h ?rs a b = resolve_font h rs a b" for a b
    by (rule resolve_font_paths) simp
  have m: "f = resolve_font h rs a b" if "((a, b), f) \<in> set (font_memo ?rs)" for a b f
    using that get_pil_font_memo_set[of h rs n s] assms coherent_value[OF assms, of n s]
    by (auto simp: fonts_coherent_def)
  have c: "f = resolve_font h rs a b" if "(a @ ''_'' @ str b, f) \<in> set (fonts ?rs)" for a b f
  proof -
    from that get_pil_font_fonts_set[of h rs n s]
    consider "(a @ ''_'' @ str b, f) = (n @ ''_'' @ str s, resolve_font h rs n s)"
      | "(a @ ''_'' @ str b, f) \<in> set (fonts rs)" by blast
    then show ?thesis
    proof cases
      case 1
      then have "a = n \<and> b = s" using font_key_inj[of a b n s] by simp
      then show ?thesis using 1 by simp
    next
      case 2
      then show ?thesis using assms by (auto simp: fonts_coherent_def)
    qed
  qed
  show ?thesis
    unfolding fonts_coherent_def using m c by (auto simp: r)
qed

lemma coherent_new: "fonts_coherent h (new_resources scanned)"
  by (simp add: fonts_coherent_def new_resources_def)

lemma coherent_refresh: "fonts_coherent h (refresh_resources rs scanned)"
  by (simp add: fonts_coherent_def refresh_resources_def)


lemma wrap_text_body_value:
  "fst (wrap_text_body lib h rs t n s w) =
     wrap_lines (text_width lib (fst (get_pil_font h rs n s))) w [] (split_on newline t)"
  by (simp add: wrap_text_body_def split: prod.splits)

lemma wrap_text_body_manager:
  "snd (wrap_text_body lib h rs t n s w) = snd (get_pil_font h rs n s)"
  by (simp add: wrap_text_body_def split: prod.splits)

lemma wrap_text_value:
  "fst (wrap_text lib h ss t n s w) =
     (case map_of (wrap_memo ss) (t, n, s, w) of
        Some ls \<Rightarrow> ls
      | None \<Rightarrow>
          wrap_lines (text_width lib (fst (get_pil_font h (manager ss) n s))) w [] (split_on newline t))"
  using wrap_text_body_value[of lib h "manager ss" t n s w]
  by (simp add: wrap_text_def split_beta split: option.splits)

lemma wrap_text_manager:
  "manager (snd (wrap_text lib h ss t n s w)) =
     (case map_of (wrap_memo ss) (t, n, s, w) of
        Some ls \<Rightarrow> manager ss
      | None \<Rightarrow> snd (get_pil_font h (manager ss) n s))"
  using wrap_text_body_manager[of lib h "manager ss" t n s w]
  by (simp add: wrap_text_def split_beta split: option.splits)

lemma wrap_text_memo_set:
  "set (wrap_memo (snd (wrap_text lib h ss t n s w))) \<subseteq>
     insert ((t, n, s, w), fst (wrap_text lib h ss t n s w)) (set (wrap_memo ss))"
  using set_lru_store[of 128 "(t, n, s, w)" _ "wrap_memo ss"]
  by (auto simp: wrap_text_def set_lru_hit split: option.splits prod.splits)

lemma wrap_text_memo_bounded:
  "length (wrap_memo ss) \<le> 128 \<Longrightarrow> length (wrap_memo (snd (wrap_text lib h ss t n s w))) \<le> 128"
  by (auto simp: wrap_text_def length_lru_hit length_lru_store split: option.splits prod.splits)

lemma wrap_text_paths [simp]:
  "font_paths (manager (snd (wrap_text lib h ss t n s w))) = font_paths (manager ss)"
  by (simp add: wrap_text_manager split: option.splits)

lemma wrap_text_coherent:
  "fonts_coherent h (manager ss) \<Longrightarrow> fonts_coherent h (manager (snd (wrap_text lib h ss t n s w)))"
  by (simp add: wrap_text_manager coherent_step split: option.splits)

lemma session_ok_value:
  assumes "session_ok lib h ss"
  shows "fst (wrap_text lib h ss t n s w) =
     wrap_lines (text_width lib (resolve_font h (manager ss) n s)) w [] (split_on newline t)"
proof (cases "map_of (wrap_memo ss) (t, n, s, w)")
  case None
  then show ?thesis using assms by (simp add: wrap_text_value session_ok_def coherent_value)
next
  case (Some ls)
  then have "((t, n, s, w), ls) \<in> set (wrap_memo ss)" by (rule map_of_SomeD)
  then have "ls = wrap_lines (text_width lib (resolve_font h (manager ss) n s)) w [] (split_on newline t)"
    using assms by (auto simp: session_ok_def wrap_fresh_def)
  then show ?thesis using Some by (simp add: wrap_text_value)
qed

lemma session_ok_wrap_text:
  assumes "session_ok lib h ss"
  shows "session_ok lib h (snd (wrap_text lib h ss t n s w))"
proof -
  let ?ss = "snd (wrap_text lib h ss t n s w)"
  have r: "resolve_font h (manager ?ss) a b = resolve_font h (manager ss) a b" for a b
    by (rule resolve_font_paths) simp
  have "ls = wrap_lines (text_width lib (resolve_font h (manager ss) a b)) c [] (split_on newline d)"
    if "((d, a, b, c), ls) \<in> set (wrap_memo ?ss)" for d a b c ls
    using that wrap_text_memo_set[of lib h ss t n s w] assms session_ok_value[OF assms, of t n s w]
    by (auto simp: session_ok_def wrap_fresh_def)
  then have "wrap_fresh lib h ?ss" unfolding wrap_fresh_def by (auto simp: r)
  then show ?thesis using assms by (simp add: session_ok_def wrap_text_coherent)
qed

lemma session_ok_font:
  assumes "session_ok lib h ss"
  shows "session_ok lib h (ss\<lparr>manager := snd (get_pil_font h (manager ss) n s)\<rparr>)"
proof -
  have r: "resolve_font h (snd (get_pil_font h (manager ss) n s)) a b = resolve_font h (manager ss) a b" for a b
    by (rule resolve_font_paths) simp
  show ?thesis
    using assms by (simp add: session_ok_def wrap_fresh_def coherent_step r)
qed

lemma session_ok_generate_thumbnail:
  assumes "session_ok lib h ss"
  shows "session_ok lib h (snd (generate_thumbnail lib h g ss t n width height))"
  using generate_thumbnail_session[of lib h g ss t n width height] assms
    session_ok_wrap_text[OF session_ok_font[OF assms]]
  by auto

lemma session_ok_new: "session_ok lib h (new_session scanned)"
  by (simp add: session_ok_def new_session_def coherent_new wrap_fresh_def)

lemma wrap_computed_value:
  assumes "wrap_computed lib ss"
  shows "\<exists>fnt. fst (wrap_text lib h ss t n s w) = wrap_lines (text_width lib fnt) w [] (split_on newline t)"
proof (cases "map_of (wrap_memo ss) (t, n, s, w)")
  case None
  then show ?thesis by (auto simp: wrap_text_value)
next
  case (Some ls)
  then have "((t, n, s, w), ls) \<in> set (wrap_memo ss)" by (rule map_of_SomeD)
  then have "\<exists>fnt. ls = wrap_lines (text_width lib fnt) w [] (split_on newline t)"
    using assms by (auto simp: wrap_computed_def)
  then show ?thesis using Some by (simp add: wrap_text_value)
qed

lemma wrap_computed_wrap_text:
  assumes "wrap_computed lib ss"
  shows "wrap_computed lib (snd (wrap_text lib h ss t n s w))"
proof -
  let ?ss = "snd (wrap_text lib h ss t n s w)"
  have "\<exists>fnt. ls = wrap_lines (text_width lib fnt) c [] (split_on newline d)"
    if "((d, a, b, c), ls) \<in> set (wrap_memo ?ss)" for d a b c ls
    using that wrap_text_memo_set[of lib h ss t n s w] assms wrap_computed_value[OF assms, of h t n s w]
    by (auto simp: wrap_computed_def)
  then show ?thesis unfolding wrap_computed_def by auto
qed

lemma wrap_computed_manager: "wrap_computed lib (ss\<lparr>manager := rs\<rparr>) = wrap_computed lib ss"
  by (simp add: wrap_computed_def)

lemma wrap_computed_generate_thumbnail:
  assumes "wrap_computed lib ss"
  shows "wrap_computed lib (snd (generate_thumbnail lib h g ss t n width height))"
  using generate_thumbnail_session[of lib h g ss t n width height] assms
    wrap_computed_wrap_text[of lib "ss\<lparr>manager := snd (get_pil_font h (manager ss) (font_name g) (font_size g))\<rparr>"]
  by (auto simp: wrap_computed_manager)

lemma wrap_computed_new: "wrap_computed lib (new_session scanned)"
  by (simp add: wrap_computed_def new_session_def)

lemma wrap_computed_refresh: "wrap_computed lib (refresh ss scanned) = wrap_computed lib ss"
  by (simp add: wrap_computed_def refresh_def)

lemma render_font_ok:
  "session_ok lib h ss \<Longrightarrow> render_font h g ss = resolve_font h (manager ss) (font_name g) (font_size g)"
  by (simp add: render_font_def session_ok_def coherent_value)

lemma render_lines_ok:
  assumes "session_ok lib h ss"
  shows "render_lines lib h g ss d width =
     wrap_lines (text_width lib (resolve_font h (manager ss) (font_name g) (font_size g)))
       (width - text_margins g * 2) [] (split_on newline d)"
proof -
  have r: "resolve_font h (snd (get_pil_font h (manager ss) (font_name g) (font_size g))) a b =
      resolve_font h (manager ss) a b" for a b
    by (rule resolve_font_paths) simp
  show ?thesis
    unfolding render_lines_def
    using session_ok_value[OF session_ok_font[OF assms, of "font_name g" "font_size g"]]
    by (simp add: r)
qed


section \<open>Lemmas: sessions and renders\<close>

lemma wrap_text_miss:
  assumes "map_of (wrap_memo ss) (t, n, s, w) = None"
  shows "wrap_text lib h ss t n s w =
     (wrap_lines (text_width lib (fst (get_pil_font h (manager ss) n s))) w [] (split_on newline t),
      \<lparr>manager = snd (get_pil_font h (manager ss) n s),
       wrap_memo = lru_store 128 (t, n, s, w)
         (wrap_lines (text_width lib (fst (get_pil_font h (manager ss) n s))) w [] (split_on newline t))
         (wrap_memo ss)\<rparr>)"
  using assms by (simp add: wrap_text_def wrap_text_body_def split_beta)

lemma wrap_text_hit:
  assumes "map_of (wrap_memo ss) (t, n, s, w) = Some ls"
  shows "fst (wrap_text lib h ss t n s w) = ls"
  using assms by (simp add: wrap_text_def)

lemma get_image_body_fonts_kept:
  "fonts (snd (get_image_body lib h rs name ty)) = fonts rs \<and>
   font_memo (snd (get_image_body lib h rs name ty)) = font_memo rs \<and>
   font_paths (snd (get_image_body lib h rs name ty)) = font_paths rs"
  by (auto simp: get_image_body_def Let_def split: option.splits sum.splits)

lemma get_image_fonts_kept:
  "fonts (snd (get_image lib h rs name ty)) = fonts rs \<and>
   font_memo (snd (get_image lib h rs name ty)) = font_memo rs \<and>
   font_paths (snd (get_image lib h rs name ty)) = font_paths rs"
  using get_image_body_fonts_kept[of lib h rs name ty]
  by (auto simp: get_image_def split_beta split: option.splits)

lemma session_ok_get_image:
  "session_ok lib h ss \<Longrightarrow> session_ok lib h (ss\<lparr>manager := snd (get_image lib h (manager ss) name ty)\<rparr>)"
  using get_image_fonts_kept[of lib h "manager ss" name ty]
  by (simp add: session_ok_def fonts_coherent_def wrap_fresh_def resolve_font_def)

lemma alpha_composite_pixel:
  "alpha_composite dst src = Inr out \<Longrightarrow> pixel out p = over (pixel dst p) (pixel src p)"
  by (auto simp: alpha_composite_def split: if_splits)


lemma add_text_block:
  "fst (add_text lib h g ss img d width height) =
     (let lines = render_lines lib h g ss d width;
          fnt = render_font h g ss;
          line_spacing = pct_of lib (font_size g) (line_spacing_factor g);
          text_height = int (length lines) * (font_size g + line_spacing) - line_spacing;
          y_position = text_y_position g height text_height
      in case (if text_box_enabled g
               then draw_text_box lib g img lines (widest_line lib fnt lines) width height y_position
               else Inr img) of
           Inl e \<Rightarrow> Inl e
         | Inr boxed \<Rightarrow>
             Inr (draw_lines lib g fnt width (text_alignment g) line_spacing boxed y_position lines))"
  by (simp add: add_text_def render_font_def render_lines_def widest_line_def Let_def split_beta
        split: sum.splits)

lemma render_lines_computed:
  assumes "wrap_computed lib ss"
  shows "\<exists>fnt. render_lines lib h g ss d width =
     wrap_lines (text_width lib fnt) (width - text_margins g * 2) [] (split_on newline d)"
  unfolding render_lines_def
  by (rule wrap_computed_value) (simp add: wrap_computed_manager assms)


section \<open>Lemmas: renders on the concrete hosts\<close>

lemma studio_session_manager: "manager studio_session = studio_resources"
  by (simp add: studio_session_def new_session_def studio_resources_def)

lemma studio_session_memo: "wrap_memo studio_session = []"
  by (simp add: studio_session_def new_session_def)

lemma studio_Arial_width:
  "text_width block_pil (fst (get_pil_font studio studio_resources ''Arial'' 100)) = (\<lambda>s. 10 * int (length s))"
  by (simp add: studio_Arial block_width_fn glyph_width_def)

lemma studio_wrap:
  "fst (wrap_text block_pil studio studio_session t ''Arial'' 100 w) =
     wrap_lines (\<lambda>s. 10 * int (length s)) w [] (split_on newline t)"
  by (simp add: wrap_text_value studio_session_memo studio_session_manager studio_Arial_width)

lemma warm_wrap_memo:
  "wrap_memo warm_session = [((''abcdefgh ij kl'', ''Arial'', 100, 50), [''abcdefgh'', ''ij kl''])]"
  unfolding warm_session_def
  by (simp add: wrap_text_miss studio_session_memo studio_session_manager studio_Arial_width
        lru_store_def newline_def split_ws_def is_space_def Let_def)

lemma warm_manager: "manager warm_session = snd (get_pil_font studio studio_resources ''Arial'' 100)"
  unfolding warm_session_def
  by (simp add: wrap_text_miss studio_session_memo studio_session_manager)

lemma warm_Arial: "fst (get_pil_font studio (manager warm_session) ''Arial'' 100) = FreeTypeFont ''DejaVuSans.ttf'' 100"
  by (simp add: warm_manager get_pil_font_again studio_Arial)

lemma fresh_Display:
  "fst (get_pil_font workshop (new_resources []) ''Display'' 40) = FreeTypeFont ''DejaVuSans.ttf'' 40"
  by (simp add: get_pil_font_value resolve_font_def workshop_def new_resources_def lower_Linux
        get_platform_fallbacks_def)

lemma stale_wrap_memo:
  "wrap_memo stale_session = [((''aaaaaaa bbbbbbb'', ''Display'', 40, 60), [''aaaaaaa bbbbbbb''])]"
  unfolding stale_session_def refresh_def
  by (simp add: wrap_text_miss fresh_Display block_width_fn glyph_width_def new_session_def
        lru_store_def newline_def split_ws_def is_space_def Let_def)

lemma stale_Display:
  "fst (get_pil_font workshop (manager stale_session) ''Display'' 40) =
     FreeTypeFont ''/app/static/fonts/Display.ttf'' 40"
  unfolding stale_session_def refresh_def
  by (simp add: get_pil_font_value resolve_font_def workshop_def refresh_resources_def)

lemma words_example: "words_of ''aaaaaaa bbbbbbb'' = [''aaaaaaa'', ''bbbbbbb'']"
  by (simp add: words_of_def newline_def split_ws_def is_space_def)

lemma poster_font: "render_font studio poster studio_session = FreeTypeFont ''DejaVuSans.ttf'' 100"
  by (simp add: render_font_def poster_def initialize_defaults_def studio_session_manager studio_Arial)

lemma poster_lines: "render_lines block_pil studio poster studio_session ''Week 3'' 1280 = [''Week 3'']"
  by (simp add: render_lines_def poster_def initialize_defaults_def wrap_text_value studio_session_memo
        studio_session_manager get_pil_font_again studio_Arial_width newline_def split_ws_def
        is_space_def Let_def)

lemma poster_geometry:
  "block_height block_pil poster [''Week 3''] = 100"
  "widest_line block_pil (FreeTypeFont ''DejaVuSans.ttf'' 100) [''Week 3''] = 60"
  "text_y_position poster 720 100 = 310"
  "box_x poster 60 1280 = 590"
  "calculate_text_x_position block_pil poster ''Week 3'' (FreeTypeFont ''DejaVuSans.ttf'' 100) 1280 (Some ''center'') = 610"
  by (simp_all add: block_height_def widest_line_def text_y_position_def box_x_def
        calculate_text_x_position_def poster_def initialize_defaults_def block_pil_def exact_pct_def
        text_width_def glyph_width_def Let_def)

lemma over_if:
  "over d (if c then (r, g, b, 255) else (0, 0, 0, 0)) = (if c then (r, g, b, 255) else d)"
  by (simp add: over_opaque over_transparent)

lemma poster_fields:
  "background_image poster = Some photo" "background_color poster = (215, 63, 9, 255)"
  "background_opacity poster = 100" "bg_image_scale poster = 100"
  "bg_image_x_offset poster = 0" "bg_image_y_offset poster = 0"
  "current_pattern poster = Some tile" "pattern_opacity poster = 100" "pattern_scale poster = 100"
  "pattern_x_offset poster = 50" "pattern_y_offset poster = 0" "pattern_color_enabled poster = False"
  "text_color poster = (1, 2, 3, 255)" "text_alignment poster = ''center''"
  "text_stroke_width poster = 0" "text_stroke_color poster = (0, 0, 0, 255)"
  "text_box_enabled poster = True" "text_box_color poster = (40, 50, 60, 255)"
  "text_box_padding poster = 20" "font_size poster = 100" "line_spacing_factor poster = 30"
  by (simp_all add: poster_def initialize_defaults_def)

lemma block_fields:
  "pct_of block_pil = exact_pct"
  "resize_px block_pil im sz rs p = pixel im (fst p * fst (isize im) div fst sz, snd p * snd (isize im) div snd sz)"
  "paste_px block_pil dst src pos msk p =
     (if inside (0, 0, fst (isize src), snd (isize src)) (fst p - fst pos, snd p - snd pos) \<and>
         snd (snd (snd (pixel msk (fst p - fst pos, snd p - snd pos)))) \<noteq> 0
      then pixel src (fst p - fst pos, snd p - snd pos) else pixel dst p)"
  "text_px block_pil img pos line fnt fill sw sf p =
     (if inside (fst pos, snd pos, fst pos + glyph_width fnt * int (length line), snd pos + 12) p
      then fill else pixel img p)"
  "rectangle_px block_pil img box fill p = (if inside box p then fill else pixel img p)"
  by (simp_all add: block_pil_def Let_def)

lemma poster_render:
  "\<exists>img. render_layers block_pil poster (FreeTypeFont ''DejaVuSans.ttf'' 100) [''Week 3'']
            (1280, 720) [Background_fill, Background_picture, Pattern_overlay, Text_box, Text_glyphs] = Inr img \<and>
         pixel img (0, 0) = (10, 20, 30, 255) \<and>
         pixel img (690, 360) = (255, 255, 255, 255) \<and>
         pixel img (686, 356) = (40, 50, 60, 255) \<and>
         pixel img (610, 310) = (1, 2, 3, 255)"
  by (simp add: render_layers_def apply_layer_def fill_layer_def picture_layer_def pattern_layer_def
        box_layer_def glyph_layer_def scaled_def placed_def with_opacity_def filter_for_def
        image_new_def new_image_def resize_def paste_def alpha_composite_def draw_rectangle_def
        draw_text_def poster_geometry poster_fields block_fields enumerate_simps
        over_opaque over_transparent
        photo_def tile_def exact_pct_def inside_def
        opaque_def transparent_def glyph_width_def Let_def)




lemma studio_lines:
  "render_lines block_pil studio initialize_defaults studio_session t 1280 =
     wrap_lines (\<lambda>s. 10 * int (length s)) 1080 [] (split_on newline t)"
  by (simp add: render_lines_def initialize_defaults_def wrap_text_value studio_session_memo
        studio_session_manager get_pil_font_again studio_Arial_width)


section \<open>The claims\<close>

text \<open>
  Claim C1 holds of the body of \<open>_wrap_text\<close> and does not hold of the method in every
  state of the program. Every line that a call returns measures at most the maximal width,
  in the font that \<open>get_pil_font\<close> resolves for the call, or is a single word of the text
  (not empty, without whitespace) wider than the maximal width by itself, whenever the
  \<open>lru_cache\<close> of the method has no entry for the arguments or no cache of the session is
  stale. No cache is stale in a new session, and wrapping and rendering keep it so.
\<close>

theorem wrap_text_line_width:
  "(map_of (wrap_memo ss) (tx, fname, fsize, max_width) = None \<or> session_ok lib h ss \<longrightarrow>
      (\<forall>l \<in> set (fst (wrap_text lib h ss tx fname fsize max_width)).
         text_width lib (fst (get_pil_font h (manager ss) fname fsize)) l \<le> max_width \<or>
         (l \<in> set (words_of tx) \<and> l \<noteq> [] \<and> (\<forall>c\<in>set l. \<not> is_space c) \<and>
          max_width < text_width lib (fst (get_pil_font h (manager ss) fname fsize)) l))) \<and>
   session_ok lib h (new_session scanned) \<and>
   (session_ok lib h ss \<longrightarrow>
      session_ok lib h (snd (wrap_text lib h ss tx fname fsize max_width)) \<and>
      session_ok lib h (snd (generate_thumbnail lib h g ss tx number width height)) \<and>
      session_ok lib h (ss\<lparr>manager := snd (get_image lib h (manager ss) iname image_type)\<rparr>))"
proof (intro conjI impI ballI)
  fix l
  let ?tw = "text_width lib (fst (get_pil_font h (manager ss) fname fsize))"
  assume pre: "map_of (wrap_memo ss) (tx, fname, fsize, max_width) = None \<or> session_ok lib h ss"
  have lines: "fst (wrap_text lib h ss tx fname fsize max_width) =
      wrap_lines ?tw max_width [] (split_on newline tx)"
  proof (cases "session_ok lib h ss")
    case True
    then have "fst (get_pil_font h (manager ss) fname fsize) = resolve_font h (manager ss) fname fsize"
      by (simp add: session_ok_def coherent_value)
    then show ?thesis using session_ok_value[OF True, of tx fname fsize max_width] by simp
  next
    case False
    then have "map_of (wrap_memo ss) (tx, fname, fsize, max_width) = None" using pre by blast
    then show ?thesis by (simp add: wrap_text_value)
  qed
  assume "l \<in> set (fst (wrap_text lib h ss tx fname fsize max_width))"
  then have "l \<in> set (wrap_lines ?tw max_width [] (split_on newline tx))"
    by (simp only: lines)
  then have "line_ok ?tw max_width (set (words_of tx)) l"
    using wrap_lines_ok[of "?tw" max_width tx] by blast
  then have "?tw l \<le> max_width \<or> (l \<in> set (words_of tx) \<and> max_width < ?tw l)"
    by (simp add: line_ok_def)
  then show "?tw l \<le> max_width \<or>
     (l \<in> set (words_of tx) \<and> l \<noteq> [] \<and> (\<forall>c\<in>set l. \<not> is_space c) \<and> max_width < ?tw l)"
    using words_of_word[of l tx] by blast
next
  show "session_ok lib h (new_session scanned)" by (rule session_ok_new)
next
  assume ok: "session_ok lib h ss"
  show "session_ok lib h (snd (wrap_text lib h ss tx fname fsize max_width))"
    using ok by (rule session_ok_wrap_text)
  show "session_ok lib h (snd (generate_thumbnail lib h g ss tx number width height))"
    using ok by (rule session_ok_generate_thumbnail)
  show "session_ok lib h (ss\<lparr>manager := snd (get_image lib h (manager ss) iname image_type)\<rparr>)"
    using ok by (rule session_ok_get_image)
qed

theorem wrap_text_line_width_witness:
  "map_of (wrap_memo warm_session) (''abcdefgh ij kl'', ''Arial'', 100, 50) = Some [''abcdefgh'', ''ij kl''] \<and>
   session_ok block_pil studio warm_session \<and>
   fst (wrap_text block_pil studio warm_session ''abcdefgh ij kl'' ''Arial'' 100 50) = [''abcdefgh'', ''ij kl''] \<and>
   50 < text_width block_pil (fst (get_pil_font studio (manager warm_session) ''Arial'' 100)) ''abcdefgh'' \<and>
   ''abcdefgh'' \<in> set (words_of ''abcdefgh ij kl'') \<and>
   text_width block_pil (fst (get_pil_font studio (manager warm_session) ''Arial'' 100)) ''ij kl'' \<le> 50"
proof -
  have hit: "map_of (wrap_memo warm_session) (''abcdefgh ij kl'', ''Arial'', 100, 50) = Some [''abcdefgh'', ''ij kl'']"
    by (simp add: warm_wrap_memo)
  have start: "session_ok block_pil studio studio_session"
    using wrap_text_line_width[of studio_session "[]" "[]" 0 0 block_pil studio
        "[(''Brand'', ''/app/static/fonts/Brand.ttf'')]"]
    by (simp add: studio_session_def)
  have ok: "session_ok block_pil studio warm_session"
    using wrap_text_line_width[of studio_session "''abcdefgh ij kl''" "''Arial''" 100 50 block_pil studio] start
    by (simp add: warm_session_def)
  have lines: "fst (wrap_text block_pil studio warm_session ''abcdefgh ij kl'' ''Arial'' 100 50) =
      [''abcdefgh'', ''ij kl'']"
    using hit by (rule wrap_text_hit)
  have long: "\<not> text_width block_pil (fst (get_pil_font studio (manager warm_session) ''Arial'' 100)) ''abcdefgh'' \<le> 50"
    by (simp add: warm_Arial block_width glyph_width_def)
  have short: "\<not> 50 < text_width block_pil (fst (get_pil_font studio (manager warm_session) ''Arial'' 100)) ''ij kl''"
    by (simp add: warm_Arial block_width glyph_width_def)
  show ?thesis
    using wrap_text_line_width[of warm_session "''abcdefgh ij kl''" "''Arial''" 100 50 block_pil studio] ok
      hit long short
    unfolding lines by auto
qed

text \<open>
  Claim C1 fails after \<open>refresh_resources\<close>, which clears the caches of the manager and
  leaves the \<open>lru_cache\<close> of \<open>_wrap_text\<close>. A generator started before the font directory
  had a file wraps two words of seven letters in the font Display at size 40, for a width
  of 60: the name resolves to the fallback DejaVu Sans and the words fit one line of 60
  pixels. The refresh finds the file Display.ttf, the name now resolves to that font, in
  which the line is 120 pixels wide, and the same call returns the memoised line of two
  words.
\<close>

theorem stale_lines_after_refresh:
  "map_of (wrap_memo stale_session) (''aaaaaaa bbbbbbb'', ''Display'', 40, 60) = Some [''aaaaaaa bbbbbbb''] \<and>
   fst (wrap_text block_pil workshop stale_session ''aaaaaaa bbbbbbb'' ''Display'' 40 60) =
     [''aaaaaaa bbbbbbb''] \<and>
   fst (get_pil_font workshop (manager stale_session) ''Display'' 40) =
     FreeTypeFont ''/app/static/fonts/Display.ttf'' 40 \<and>
   text_width block_pil (fst (get_pil_font workshop (manager stale_session) ''Display'' 40))
     ''aaaaaaa bbbbbbb'' = 120 \<and>
   \<not> (120::int) \<le> 60 \<and>
   words_of ''aaaaaaa bbbbbbb'' = [''aaaaaaa'', ''bbbbbbb''] \<and>
   ''aaaaaaa bbbbbbb'' \<notin> set (words_of ''aaaaaaa bbbbbbb'')"
proof -
  have hit: "map_of (wrap_memo stale_session) (''aaaaaaa bbbbbbb'', ''Display'', 40, 60) =
      Some [''aaaaaaa bbbbbbb'']"
    by (simp add: stale_wrap_memo)
  have lines: "fst (wrap_text block_pil workshop stale_session ''aaaaaaa bbbbbbb'' ''Display'' 40 60) =
      [''aaaaaaa bbbbbbb'']"
    using hit by (rule wrap_text_hit)
  show ?thesis
    unfolding lines by (simp add: hit stale_Display block_width glyph_width_def words_example)
qed


text \<open>
  Claim C2. For every style configuration and every call, \<open>generate_thumbnail\<close> gives the
  canvas its layers in one fixed order: the solid background fill first, then the
  background image, then the pattern overlay, then the text box if it is enabled, and the
  text glyphs with their stroke last. What the call returns is what the five layers of
  the specification give, applied in that order to a transparent canvas of the requested
  size, and the exception of the first layer that cannot be made otherwise.
\<close>

theorem layers_applied_in_order:
  "fst (generate_thumbnail lib h g ss tx number width height) =
     map_sum id (\<lambda>img. (img, filename_base g @ str number))
       (render_layers lib g (render_font h g ss)
          (render_lines lib h g ss (replace_char (CHR ''^'') (str number) tx) width)
          (width, height) layers_in_order) \<and>
   layers_in_order = [Background_fill, Background_picture, Pattern_overlay, Text_box, Text_glyphs]"
  by (simp add: generate_thumbnail_layers layers_in_order_def)

text \<open>
  On the poster every layer is visible where the later ones leave it: the picture covers
  the fill, the tile covers the picture, the box covers the tile, the text covers the box.
\<close>

theorem layers_applied_in_order_witness:
  "\<exists>img. fst (generate_thumbnail block_pil studio poster studio_session ''Week ^'' 3 1280 720) =
           Inr (img, ''output3'') \<and>
         pixel img (0, 0) = (10, 20, 30, 255) \<and>
         pixel img (690, 360) = (255, 255, 255, 255) \<and>
         pixel img (686, 356) = (40, 50, 60, 255) \<and>
         pixel img (610, 310) = (1, 2, 3, 255)"
proof -
  have d: "replace_char (CHR ''^'') (str 3) ''Week ^'' = ''Week 3''"
    by (simp add: replace_char_def str_3)
  have n: "filename_base poster @ str 3 = ''output3''"
    by (simp add: poster_def initialize_defaults_def str_3)
  obtain img where
    r: "render_layers block_pil poster (FreeTypeFont ''DejaVuSans.ttf'' 100) [''Week 3'']
          (1280, 720) [Background_fill, Background_picture, Pattern_overlay, Text_box, Text_glyphs] = Inr img"
    and p: "pixel img (0, 0) = (10, 20, 30, 255)" "pixel img (690, 360) = (255, 255, 255, 255)"
      "pixel img (686, 356) = (40, 50, 60, 255)" "pixel img (610, 310) = (1, 2, 3, 255)"
    using poster_render by blast
  have "fst (generate_thumbnail block_pil studio poster studio_session ''Week ^'' 3 1280 720) =
      Inr (img, ''output3'')"
    using layers_applied_in_order[of block_pil studio poster studio_session "''Week ^''" 3 1280 720]
    unfolding d n poster_font poster_lines layers_in_order_def r by simp
  then show ?thesis using p by blast
qed


text \<open>
  Claim C3. With no background image configured, the result of a render call is the same
  for any two values of the background opacity. The background fill is composited at alpha
  255: two background colours that differ in their alpha component only give the same
  result, and on a canvas of the frame's size the fill layer leaves exactly the colour's
  red, green and blue at alpha 255 in every pixel.
\<close>

theorem background_fill_ignores_opacity:
  assumes "background_image g = None"
  shows "generate_thumbnail lib h (g\<lparr>background_opacity := a\<rparr>) ss tx n width height =
           generate_thumbnail lib h (g\<lparr>background_opacity := b\<rparr>) ss tx n width height \<and>
         generate_thumbnail lib h (g\<lparr>background_color := (r, gr, bl, al)\<rparr>) ss tx n width height =
           generate_thumbnail lib h (g\<lparr>background_color := (r, gr, bl, al')\<rparr>) ss tx n width height \<and>
         (isize img = (width, height) \<longrightarrow>
            add_background_color (g\<lparr>background_opacity := a\<rparr>) img width height =
              Inr (new_image (width, height) (opaque (background_color g))))"
proof (intro conjI impI)
  have "generate_thumbnail lib h (g\<lparr>background_opacity := a\<rparr>) ss tx n width height =
      generate_thumbnail lib h g ss tx n width height"
    using assms by (rule generate_thumbnail_opacity)
  also have "\<dots> = generate_thumbnail lib h (g\<lparr>background_opacity := b\<rparr>) ss tx n width height"
    using assms by (rule generate_thumbnail_opacity[symmetric])
  finally show "generate_thumbnail lib h (g\<lparr>background_opacity := a\<rparr>) ss tx n width height =
      generate_thumbnail lib h (g\<lparr>background_opacity := b\<rparr>) ss tx n width height" .
  show "generate_thumbnail lib h (g\<lparr>background_color := (r, gr, bl, al)\<rparr>) ss tx n width height =
      generate_thumbnail lib h (g\<lparr>background_color := (r, gr, bl, al')\<rparr>) ss tx n width height"
    by (rule generate_thumbnail_color_alpha)
  assume "isize img = (width, height)"
  then have "add_background_color (g\<lparr>background_opacity := a\<rparr>) img width height =
      Inr (new_image (width, height) (opaque (background_color (g\<lparr>background_opacity := a\<rparr>))))"
    by (rule add_background_color_size)
  then show "add_background_color (g\<lparr>background_opacity := a\<rparr>) img width height =
      Inr (new_image (width, height) (opaque (background_color g)))"
    by simp
qed

theorem background_fill_ignores_opacity_witness:
  "generate_thumbnail block_pil studio (initialize_defaults\<lparr>background_opacity := 10\<rparr>) studio_session
       ''Week ^'' 1 1280 720 =
     generate_thumbnail block_pil studio (initialize_defaults\<lparr>background_opacity := 100\<rparr>) studio_session
       ''Week ^'' 1 1280 720 \<and>
   add_background_color (initialize_defaults\<lparr>background_opacity := 10\<rparr>)
       (new_image (1280, 720) transparent) 1280 720 =
     Inr (new_image (1280, 720) (215, 63, 9, 255))"
proof -
  have none: "background_image initialize_defaults = None"
    by (simp add: initialize_defaults_def)
  have sz: "isize (new_image (1280, 720) transparent) = (1280, 720)" by simp
  have col: "opaque (background_color initialize_defaults) = (215, 63, 9, 255)"
    by (simp add: initialize_defaults_def opaque_def)
  show ?thesis
    using background_fill_ignores_opacity[OF none, of block_pil studio 10 studio_session "''Week ^''" 1
        1280 720 100 0 0 0 0 0 "new_image (1280, 720) transparent"] sz col
    by simp
qed






text \<open>
  Claim C5 does not hold of \<open>_draw_text_box\<close>. For the alignments top_left, bottom_left,
  top_center and bottom_center the left edge of the text box follows the rule of the right
  group (width - margin - widest line - padding + xOffset), while the text lines of the
  same call follow the rule of their own group.
\<close>

theorem text_box_ignores_alignment_group:
  assumes "text_alignment g \<in> set [''top_left'', ''bottom_left'', ''top_center'', ''bottom_center'']"
  shows "box_x g m width = width - text_margins g - m - text_box_padding g + text_x_offset g \<and>
         calculate_text_x_position lib g line fnt width None =
           (if text_alignment g \<in> set [''top_left'', ''bottom_left'']
            then text_margins g + text_x_offset g
            else (width - text_width lib fnt line) div 2 + text_x_offset g)"
proof
  show "box_x g m width = width - text_margins g - m - text_box_padding g + text_x_offset g"
    using assms by (auto simp: box_x_def)
  show "calculate_text_x_position lib g line fnt width None =
           (if text_alignment g \<in> set [''top_left'', ''bottom_left'']
            then text_margins g + text_x_offset g
            else (width - text_width lib fnt line) div 2 + text_x_offset g)"
    using assms by (auto simp: calculate_text_x_position_def Let_def)
qed

theorem text_box_ignores_alignment_group_witness:
  "box_x (initialize_defaults\<lparr>text_alignment := ''top_left'', text_box_enabled := True\<rparr>) 400 1280 = 760 \<and>
   calculate_text_x_position block_pil
     (initialize_defaults\<lparr>text_alignment := ''top_left'', text_box_enabled := True\<rparr>)
     (replicate 40 (CHR ''a'')) DefaultFont 1280 None = 100"
proof -
  have al: "text_alignment (initialize_defaults\<lparr>text_alignment := ''top_left'', text_box_enabled := True\<rparr>)
      \<in> set [''top_left'', ''bottom_left'', ''top_center'', ''bottom_center'']"
    by simp
  show ?thesis
    using text_box_ignores_alignment_group[OF al, of 400 1280 block_pil "replicate 40 (CHR ''a'')" DefaultFont]
    by (simp add: initialize_defaults_def)
qed


text \<open>
  Claim C6, as amended. Every background image, loaded from the catalogue by \<open>get_image\<close>
  or uploaded, is within 2048 pixels in both dimensions after loading, given that
  \<open>thumbnail\<close> leaves an image no larger than the size it is given; every call of
  \<open>get_image\<close> keeps this true of the cached backgrounds. Pattern images are cached at
  their native size.
\<close>

theorem background_images_within_2048:
  assumes "thumbnail_fits lib" and "backgrounds_small rs"
  shows "(\<forall>im. fst (get_background_image lib h rs name) = Some im \<longrightarrow>
            max (fst (isize im)) (snd (isize im)) \<le> 2048) \<and>
         backgrounds_small (snd (get_image lib h rs name image_type)) \<and>
         (fst (upload_background lib g upload) = Uploaded \<longrightarrow>
            (\<exists>im. background_image (snd (upload_background lib g upload)) = Some im \<and>
                  max (fst (isize im)) (snd (isize im)) \<le> 2048))"
proof (intro conjI allI impI)
  fix im assume "fst (get_background_image lib h rs name) = Some im"
  then have "fst (get_image lib h rs name ''background'') = Some im"
    by (simp add: get_background_image_def)
  then have "within_2048 im"
    using get_image_small[OF assms, of h name "''background''"] by blast
  then show "max (fst (isize im)) (snd (isize im)) \<le> 2048" by (simp add: within_2048_def)
next
  show "backgrounds_small (snd (get_image lib h rs name image_type))"
    using get_image_small[OF assms, of h name image_type] by blast
next
  assume "fst (upload_background lib g upload) = Uploaded"
  then obtain im where "background_image (snd (upload_background lib g upload)) = Some im" "within_2048 im"
    using upload_background_small[OF assms(1)] by blast
  then show "\<exists>im. background_image (snd (upload_background lib g upload)) = Some im \<and>
                  max (fst (isize im)) (snd (isize im)) \<le> 2048"
    by (auto simp: within_2048_def)
qed

theorem background_images_within_2048_witness:
  "fst (get_background_image block_pil studio studio_resources ''big'') =
     Some (fit_within photo (2048, 2048) LANCZOS) \<and>
   isize (fit_within photo (2048, 2048) LANCZOS) = (2048, 1536) \<and>
   max (fst (isize (fit_within photo (2048, 2048) LANCZOS)))
       (snd (isize (fit_within photo (2048, 2048) LANCZOS))) \<le> 2048 \<and>
   fst (upload_background block_pil initialize_defaults (Some (''big.PNG'', Inr photo))) = Uploaded \<and>
   (\<exists>im. background_image (snd (upload_background block_pil initialize_defaults (Some (''big.PNG'', Inr photo))))
           = Some im \<and> max (fst (isize im)) (snd (isize im)) \<le> 2048)"
proof -
  have small: "backgrounds_small studio_resources"
    by (simp add: studio_resources_def new_resources_small)
  have up: "fst (upload_background block_pil initialize_defaults (Some (''big.PNG'', Inr photo))) = Uploaded"
    by (simp add: upload_background_def allowed_big Let_def)
  show ?thesis
    using background_images_within_2048[OF fit_within_fits small, of studio "''big''" "''background''"
        initialize_defaults "Some (''big.PNG'', Inr photo)"]
      studio_big_background fit_photo up
    by simp
qed

text \<open>
  Claim C6 as stated fails for a pattern: a pattern file of 4000 by 3000 pixels is
  returned as it was decoded.
\<close>

theorem pattern_not_downscaled:
  "fst (get_pattern_image block_pil studio studio_resources ''big'') = Some photo \<and>
   isize photo = (4000, 3000) \<and>
   \<not> max (fst (isize photo)) (snd (isize photo)) \<le> 2048"
  by (simp add: studio_big_pattern photo_size)


text \<open>
  Claim C7, as amended. \<open>get_pil_font\<close> always returns a font: the memoised or cached one
  when there is one; otherwise, for a name of the custom index, the font of its file, and
  the default font when that file does not load; for any other name the first that loads
  of the literal name and the fallbacks of the platform, and the default font when none
  does. The fallbacks start with the Impact candidates when the lower-cased name is
  "impact" on Windows and macOS; on any other platform they do not depend on the name.
\<close>

theorem get_pil_font_resolution:
  "fst (get_pil_font h rs name sz) =
     (case map_of (font_memo rs) (name, sz) of
        Some fnt \<Rightarrow> fnt
      | None \<Rightarrow>
          (case map_of (fonts rs) (name @ ''_'' @ str sz) of
             Some fnt \<Rightarrow> fnt
           | None \<Rightarrow> resolve_font h rs name sz)) \<and>
   (lower name = ''impact'' \<longrightarrow>
      get_platform_fallbacks ''windows'' name =
        ''C:/Windows/Fonts/impact.ttf'' # ''impact.ttf'' # get_platform_fallbacks ''windows'' [] \<and>
      get_platform_fallbacks ''darwin'' name = ''Impact.ttf'' # get_platform_fallbacks ''darwin'' []) \<and>
   (system \<noteq> ''windows'' \<and> system \<noteq> ''darwin'' \<longrightarrow>
      get_platform_fallbacks system name = get_platform_fallbacks system [])"
proof (intro conjI impI)
  show "fst (get_pil_font h rs name sz) =
     (case map_of (font_memo rs) (name, sz) of
        Some fnt \<Rightarrow> fnt
      | None \<Rightarrow>
          (case map_of (fonts rs) (name @ ''_'' @ str sz) of
             Some fnt \<Rightarrow> fnt
           | None \<Rightarrow> resolve_font h rs name sz))"
    by (rule get_pil_font_value)
next
  have plain: "lower [] \<noteq> ''impact''" by (simp add: lower_def)
  assume "lower name = ''impact''"
  then show "get_platform_fallbacks ''windows'' name =
        ''C:/Windows/Fonts/impact.ttf'' # ''impact.ttf'' # get_platform_fallbacks ''windows'' []"
    and "get_platform_fallbacks ''darwin'' name = ''Impact.ttf'' # get_platform_fallbacks ''darwin'' []"
    using plain by (simp_all add: get_platform_fallbacks_def)
next
  assume "system \<noteq> ''windows'' \<and> system \<noteq> ''darwin''"
  then show "get_platform_fallbacks system name = get_platform_fallbacks system []"
    by (simp add: get_platform_fallbacks_def)
qed

theorem get_pil_font_resolution_witness:
  "fst (get_pil_font studio studio_resources ''Arial'' 100) = FreeTypeFont ''DejaVuSans.ttf'' 100 \<and>
   get_platform_fallbacks ''windows'' ''Impact'' =
     [''C:/Windows/Fonts/impact.ttf'', ''impact.ttf'', ''arial.ttf'', ''calibri.ttf'', ''segoeui.ttf'',
      ''tahoma.ttf'', ''C:/Windows/Fonts/arial.ttf'', ''C:/Windows/Fonts/calibri.ttf''] \<and>
   get_platform_fallbacks ''darwin'' ''Impact'' =
     [''Impact.ttf'', ''Arial.ttc'', ''Helvetica.ttc'', ''Arial.ttf'', ''/System/Library/Fonts/Arial.ttf'',
      ''/System/Library/Fonts/Helvetica.ttc''] \<and>
   get_platform_fallbacks ''linux'' ''Impact'' =
     [''DejaVuSans.ttf'', ''liberation-sans.ttf'', ''Ubuntu-R.ttf'',
      ''/usr/share/fonts/truetype/dejavu/DejaVuSans.ttf'',
      ''/usr/share/fonts/truetype/liberation/LiberationSans-Regular.ttf'']"
proof -
  have miss: "map_of (font_memo studio_resources) (''Arial'', 100) = None"
    "map_of (fonts studio_resources) (''Arial'' @ ''_'' @ str 100) = None"
    by (simp_all add: studio_resources_def new_resources_def)
  have res: "resolve_font studio studio_resources ''Arial'' 100 = FreeTypeFont ''DejaVuSans.ttf'' 100"
    by (simp add: resolve_font_def studio_def studio_resources_def new_resources_def
        lower_Linux get_platform_fallbacks_def)
  have other: "''linux'' \<noteq> ''windows'' \<and> ''linux'' \<noteq> ''darwin''" by simp
  have plain: "lower [] \<noteq> ''impact''" by (simp add: lower_def)
  have w: "get_platform_fallbacks ''windows'' [] =
      [''arial.ttf'', ''calibri.ttf'', ''segoeui.ttf'',
      ''tahoma.ttf'', ''C:/Windows/Fonts/arial.ttf'', ''C:/Windows/Fonts/calibri.ttf'']"
    and d: "get_platform_fallbacks ''darwin'' [] =
      [''Arial.ttc'', ''Helvetica.ttc'', ''Arial.ttf'', ''/System/Library/Fonts/Arial.ttf'',
      ''/System/Library/Fonts/Helvetica.ttc'']"
    and l: "get_platform_fallbacks ''linux'' [] =
      [''DejaVuSans.ttf'', ''liberation-sans.ttf'', ''Ubuntu-R.ttf'',
      ''/usr/share/fonts/truetype/dejavu/DejaVuSans.ttf'',
      ''/usr/share/fonts/truetype/liberation/LiberationSans-Regular.ttf'']"
    using plain by (simp_all add: get_platform_fallbacks_def)
  have a: "fst (get_pil_font studio studio_resources ''Arial'' 100) = FreeTypeFont ''DejaVuSans.ttf'' 100"
    using get_pil_font_resolution[of studio studio_resources "''Arial''" 100 "''linux''"]
    by (simp only: miss res option.case)
  have b: "get_platform_fallbacks ''windows'' ''Impact'' =
        ''C:/Windows/Fonts/impact.ttf'' # ''impact.ttf'' # get_platform_fallbacks ''windows'' [] \<and>
      get_platform_fallbacks ''darwin'' ''Impact'' = ''Impact.ttf'' # get_platform_fallbacks ''darwin'' []"
    using get_pil_font_resolution[of studio studio_resources "''Impact''" 100 "''linux''"] lower_Impact
    by blast
  have c: "get_platform_fallbacks ''linux'' ''Impact'' = get_platform_fallbacks ''linux'' []"
    using get_pil_font_resolution[of studio studio_resources "''Impact''" 100 "''linux''"] other
    by blast
  show ?thesis using a b c unfolding w d l by simp
qed

text \<open>
  Claim C7 as stated fails on a host where the font file of the custom index does not
  load and a system font of the same name does: the default font is returned, the system
  lookup is not tried. On Linux a request for "impact" meets no Impact candidate.
\<close>

theorem broken_custom_font_skips_system_font:
  "map_of (font_paths studio_resources) ''Brand'' = Some ''/app/static/fonts/Brand.ttf'' \<and>
   truetype studio ''/app/static/fonts/Brand.ttf'' 40 = Inl OSError \<and>
   truetype studio ''Brand'' 40 = Inr (FreeTypeFont ''Brand'' 40) \<and>
   fst (get_pil_font studio studio_resources ''Brand'' 40) = DefaultFont \<and>
   get_platform_fallbacks (lower (platform_system studio)) ''impact'' =
     [''DejaVuSans.ttf'', ''liberation-sans.ttf'', ''Ubuntu-R.ttf'',
      ''/usr/share/fonts/truetype/dejavu/DejaVuSans.ttf'',
      ''/usr/share/fonts/truetype/liberation/LiberationSans-Regular.ttf'']"
proof -
  have "map_of (font_paths studio_resources) ''Brand'' = Some ''/app/static/fonts/Brand.ttf''"
    by (simp add: studio_resources_def new_resources_def)
  moreover have "truetype studio ''/app/static/fonts/Brand.ttf'' 40 = Inl OSError"
    by (simp add: studio_def)
  ultimately show ?thesis
    using studio_Brand studio_Brand_system studio_impact_fallbacks by simp
qed


text \<open>
  Claim C8 holds of the font cache and does not hold of the image cache. \<open>_fonts\<close> holds
  at most 150 entries after every call of \<open>get_pil_font\<close>, and after any sequence of
  calls: the insertion that makes it 151 drops the 50 oldest entries. \<open>_images\<close> has no
  ceiling: a call of \<open>get_image\<close> keeps every entry and adds at most at the end, and for
  every number there is a directory of patterns after whose loading \<open>_images\<close> holds that
  many entries. The \<open>lru_cache\<close> tables in front of the two methods stay within 128 and
  64 results.
\<close>

theorem font_cache_bounded:
  "(length (fonts rs) \<le> 150 \<longrightarrow>
      length (fonts (snd (get_pil_font h rs name sz))) \<le> 150 \<and>
      length (fonts (font_requests h rs reqs)) \<le> 150) \<and>
   (map_of (font_memo rs) (name, sz) = None \<and> map_of (fonts rs) (name @ ''_'' @ str sz) = None \<and>
    length (fonts rs) = 150 \<longrightarrow>
      fonts (snd (get_pil_font h rs name sz)) =
        drop 50 (fonts rs) @ [(name @ ''_'' @ str sz, resolve_font h rs name sz)]) \<and>
   length (fonts (font_requests h (new_resources scanned) reqs)) \<le> 150 \<and>
   (length (font_memo rs) \<le> 128 \<longrightarrow> length (font_memo (snd (get_pil_font h rs name sz))) \<le> 128) \<and>
   (\<exists>added. images (snd (get_image lib h rs iname image_type)) = images rs @ added) \<and>
   (length (image_memo rs) \<le> 64 \<longrightarrow>
      length (image_memo (snd (get_image lib h rs iname image_type))) \<le> 64) \<and>
   length (images (load_patterns lib (gallery m) (new_resources scanned) (gallery_names m))) = m"
proof (intro conjI impI)
  assume le: "length (fonts rs) \<le> 150"
  show "length (fonts (snd (get_pil_font h rs name sz))) \<le> 150"
    using le by (rule get_pil_font_bounded)
  show "length (fonts (font_requests h rs reqs)) \<le> 150"
    using le by (rule font_requests_bounded)
next
  assume full: "map_of (font_memo rs) (name, sz) = None \<and> map_of (fonts rs) (name @ ''_'' @ str sz) = None \<and>
    length (fonts rs) = 150"
  then have "fonts (snd (get_pil_font h rs name sz)) =
      drop 50 (fonts rs @ [(name @ ''_'' @ str sz, resolve_font h rs name sz)])"
    by (simp add: get_pil_font_fonts get_pil_font_body_fonts)
  then show "fonts (snd (get_pil_font h rs name sz)) =
        drop 50 (fonts rs) @ [(name @ ''_'' @ str sz, resolve_font h rs name sz)]"
    using full by simp
next
  have "length (fonts (new_resources scanned)) \<le> 150" by (simp add: new_resources_def)
  then show "length (fonts (font_requests h (new_resources scanned) reqs)) \<le> 150"
    by (rule font_requests_bounded)
next
  assume "length (font_memo rs) \<le> 128"
  then show "length (font_memo (snd (get_pil_font h rs name sz))) \<le> 128"
    by (rule get_pil_font_memo_bounded)
next
  show "\<exists>added. images (snd (get_image lib h rs iname image_type)) = images rs @ added"
    by (rule get_image_grows)
next
  assume "length (image_memo rs) \<le> 64"
  then show "length (image_memo (snd (get_image lib h rs iname image_type))) \<le> 64"
    by (rule get_image_memo_bounded)
next
  show "length (images (load_patterns lib (gallery m) (new_resources scanned) (gallery_names m))) = m"
    using gallery_loaded[of m m lib scanned] by (simp add: gallery_names_def)
qed

theorem font_cache_bounded_witness:
  "length (fonts full_font_cache) = 150 \<and>
   fonts (snd (get_pil_font studio full_font_cache ''Arial'' 100)) =
     drop 50 (fonts full_font_cache) @ [(''Arial_100'', FreeTypeFont ''DejaVuSans.ttf'' 100)] \<and>
   length (fonts (snd (get_pil_font studio full_font_cache ''Arial'' 100))) \<le> 150 \<and>
   length (font_memo (snd (get_pil_font studio full_font_cache ''Arial'' 100))) \<le> 128 \<and>
   length (image_memo (snd (get_image block_pil studio full_font_cache ''big'' ''pattern''))) \<le> 64 \<and>
   length (images (load_patterns block_pil (gallery 200) (new_resources []) (gallery_names 200))) = 200"
proof -
  have len: "length (fonts full_font_cache) = 150"
    by (simp add: full_font_cache_def gallery_names_def)
  have memo: "map_of (font_memo full_font_cache) (''Arial'', 100) = None"
    by (simp add: full_font_cache_def new_resources_def)
  have "''Arial'' @ ''_'' @ str 100 \<notin> fst ` set (fonts full_font_cache)"
    by (auto simp: full_font_cache_def gallery_names_def)
  then have cache: "map_of (fonts full_font_cache) (''Arial'' @ ''_'' @ str 100) = None"
    by (rule map_of_None_keys)
  have res: "resolve_font studio full_font_cache ''Arial'' 100 = FreeTypeFont ''DejaVuSans.ttf'' 100"
    by (simp add: resolve_font_def studio_def full_font_cache_def new_resources_def
        lower_Linux get_platform_fallbacks_def)
  have m1: "length (font_memo full_font_cache) \<le> 128" "length (image_memo full_font_cache) \<le> 64"
    by (simp_all add: full_font_cache_def new_resources_def)
  have key: "''Arial'' @ ''_'' @ str 100 = ''Arial_100''" by (simp add: str_100)
  show ?thesis
    using font_cache_bounded[of full_font_cache studio "''Arial''" 100 "[]" "[]" block_pil "''big''" "''pattern''" 200]
      len memo cache m1
    unfolding res key by simp
qed

text \<open>
  Claim C8 fails for the image cache: after 151 patterns are loaded it holds 151 entries,
  more than the ceiling of the font cache, the first one inserted among them.
\<close>

theorem image_cache_never_evicts:
  "length (images (load_patterns block_pil (gallery 151) (new_resources []) (gallery_names 151))) = 151 \<and>
   \<not> (151::nat) \<le> 150 \<and>
   images (load_patterns block_pil (gallery 151) (new_resources []) (gallery_names 151)) ! 0 =
     (''pattern_a'', tile)"
proof -
  have all: "images (load_patterns block_pil (gallery 151) (new_resources []) (gallery_names 151)) =
      map (\<lambda>name. (''pattern_'' @ name, tile)) (gallery_names 151)"
    using gallery_loaded[of 151 151 block_pil "[]"] by simp
  show ?thesis unfolding all by (simp add: gallery_names_def)
qed






text \<open>
  Claim C10. \<open>_wrap_text\<close> drops empty paragraphs, in every session whose \<open>lru_cache\<close> of
  \<open>_wrap_text\<close> holds what the method computed (a new session does, and wrapping,
  rendering and refreshing keep it so): the empty string gives no line, a text of
  whitespace only gives no line, no line of any result is empty, and a text with a
  paragraph of whitespace only (in particular the empty paragraph between two consecutive
  line breaks) gets the lines of the text without that paragraph. \<open>_add_text\<close> computes the
  height of the block from the number of the lines it gets from \<open>_wrap_text\<close>, none of
  them empty. When no cache of the session is stale, the blank paragraph changes neither
  the lines nor the text layer that \<open>_add_text\<close> draws.
\<close>

theorem wrap_text_drops_blank_paragraphs:
  assumes "wrap_computed lib ss"
  shows
    "fst (wrap_text lib h ss [] fname fsize max_width) = [] \<and>
     ((\<forall>c\<in>set tx. is_space c) \<longrightarrow> fst (wrap_text lib h ss tx fname fsize max_width) = []) \<and>
     [] \<notin> set (fst (wrap_text lib h ss tx fname fsize max_width)) \<and>
     ((\<forall>c\<in>set blank. is_space c) \<longrightarrow>
        (\<exists>fnt. fst (wrap_text lib h ss (a @ newline # blank @ newline # b) fname fsize max_width) =
           wrap_lines (text_width lib fnt) max_width [] (split_on newline (a @ newline # b)))) \<and>
     [] \<notin> set (render_lines lib h g ss tx width) \<and>
     fst (add_text lib h g ss img tx width height) =
       (let lines = render_lines lib h g ss tx width;
            fnt = render_font h g ss;
            line_spacing = pct_of lib (font_size g) (line_spacing_factor g);
            text_height = int (length lines) * (font_size g + line_spacing) - line_spacing;
            y_position = text_y_position g height text_height
        in case (if text_box_enabled g
                 then draw_text_box lib g img lines (widest_line lib fnt lines) width height y_position
                 else Inr img) of
             Inl e \<Rightarrow> Inl e
           | Inr boxed \<Rightarrow>
               Inr (draw_lines lib g fnt width (text_alignment g) line_spacing boxed y_position lines)) \<and>
     ((\<forall>c\<in>set blank. is_space c) \<and> session_ok lib h ss \<longrightarrow>
        fst (wrap_text lib h ss (a @ newline # blank @ newline # b) fname fsize max_width) =
          fst (wrap_text lib h ss (a @ newline # b) fname fsize max_width) \<and>
        render_lines lib h g ss (a @ newline # blank @ newline # b) width =
          render_lines lib h g ss (a @ newline # b) width \<and>
        fst (add_text lib h g ss img (a @ newline # blank @ newline # b) width height) =
          fst (add_text lib h g ss img (a @ newline # b) width height)) \<and>
     wrap_computed lib (new_session scanned) \<and>
     wrap_computed lib (snd (wrap_text lib h ss tx fname fsize max_width)) \<and>
     wrap_computed lib (snd (generate_thumbnail lib h g ss tx number width height)) \<and>
     wrap_computed lib (refresh ss scanned)"
proof (intro conjI impI)
  obtain f0 where f0: "fst (wrap_text lib h ss [] fname fsize max_width) =
      wrap_lines (text_width lib f0) max_width [] (split_on newline [])"
    using wrap_computed_value[OF assms, of h "[]" fname fsize max_width] by blast
  show "fst (wrap_text lib h ss [] fname fsize max_width) = []"
    unfolding f0 by (rule wrap_lines_blank_text) simp
  obtain f1 where f1: "fst (wrap_text lib h ss tx fname fsize max_width) =
      wrap_lines (text_width lib f1) max_width [] (split_on newline tx)"
    using wrap_computed_value[OF assms, of h tx fname fsize max_width] by blast
  show "fst (wrap_text lib h ss tx fname fsize max_width) = []" if "\<forall>c\<in>set tx. is_space c"
    unfolding f1 using that by (rule wrap_lines_blank_text)
  show "[] \<notin> set (fst (wrap_text lib h ss tx fname fsize max_width))"
    unfolding f1 by (rule wrap_lines_nonempty)
  obtain f2 where f2: "fst (wrap_text lib h ss (a @ newline # blank @ newline # b) fname fsize max_width) =
      wrap_lines (text_width lib f2) max_width [] (split_on newline (a @ newline # blank @ newline # b))"
    using wrap_computed_value[OF assms, of h "a @ newline # blank @ newline # b" fname fsize max_width]
    by blast
  show "\<exists>fnt. fst (wrap_text lib h ss (a @ newline # blank @ newline # b) fname fsize max_width) =
      wrap_lines (text_width lib fnt) max_width [] (split_on newline (a @ newline # b))"
    if "\<forall>c\<in>set blank. is_space c"
    unfolding f2 using wrap_lines_blank_paragraph[OF that] by blast
  obtain f3 where f3: "render_lines lib h g ss tx width =
      wrap_lines (text_width lib f3) (width - text_margins g * 2) [] (split_on newline tx)"
    using render_lines_computed[OF assms, of h g tx width] by blast
  show "[] \<notin> set (render_lines lib h g ss tx width)"
    unfolding f3 by (rule wrap_lines_nonempty)
  show "fst (add_text lib h g ss img tx width height) =
       (let lines = render_lines lib h g ss tx width;
            fnt = render_font h g ss;
            line_spacing = pct_of lib (font_size g) (line_spacing_factor g);
            text_height = int (length lines) * (font_size g + line_spacing) - line_spacing;
            y_position = text_y_position g height text_height
        in case (if text_box_enabled g
                 then draw_text_box lib g img lines (widest_line lib fnt lines) width height y_position
                 else Inr img) of
             Inl e \<Rightarrow> Inl e
           | Inr boxed \<Rightarrow>
               Inr (draw_lines lib g fnt width (text_alignment g) line_spacing boxed y_position lines))"
    by (rule add_text_block)
  show "wrap_computed lib (new_session scanned)" by (rule wrap_computed_new)
  show "wrap_computed lib (snd (wrap_text lib h ss tx fname fsize max_width))"
    using assms by (rule wrap_computed_wrap_text)
  show "wrap_computed lib (snd (generate_thumbnail lib h g ss tx number width height))"
    using assms by (rule wrap_computed_generate_thumbnail)
  show "wrap_computed lib (refresh ss scanned)"
    using assms by (simp add: wrap_computed_refresh)
next
  assume pre: "(\<forall>c\<in>set blank. is_space c) \<and> session_ok lib h ss"
  then have blank: "\<forall>c\<in>set blank. is_space c" and ok: "session_ok lib h ss" by simp_all
  show "fst (wrap_text lib h ss (a @ newline # blank @ newline # b) fname fsize max_width) =
      fst (wrap_text lib h ss (a @ newline # b) fname fsize max_width)"
    by (simp only: session_ok_value[OF ok] wrap_lines_blank_paragraph[OF blank])
  show same: "render_lines lib h g ss (a @ newline # blank @ newline # b) width =
      render_lines lib h g ss (a @ newline # b) width"
    by (simp only: render_lines_ok[OF ok] wrap_lines_blank_paragraph[OF blank])
  show "fst (add_text lib h g ss img (a @ newline # blank @ newline # b) width height) =
      fst (add_text lib h g ss img (a @ newline # b) width height)"
    by (simp only: add_text_block same)
qed

theorem wrap_text_drops_blank_paragraphs_witness:
  "fst (wrap_text block_pil studio studio_session (''a'' @ newline # [] @ newline # ''b'') ''Arial'' 100 500) =
     [''a'', ''b''] \<and>
   fst (wrap_text block_pil studio studio_session [CHR '' '', newline, CHR '' ''] ''Arial'' 100 500) = [] \<and>
   render_lines block_pil studio initialize_defaults studio_session (''a'' @ newline # [] @ newline # ''b'') 1280 =
     [''a'', ''b''] \<and>
   int (length [''a'', ''b'']) * (font_size initialize_defaults + 30) - 30 = 230 \<and>
   fst (add_text block_pil studio initialize_defaults studio_session (new_image (1280, 720) transparent)
          (''a'' @ newline # [] @ newline # ''b'') 1280 720) =
     fst (add_text block_pil studio initialize_defaults studio_session (new_image (1280, 720) transparent)
          (''a'' @ newline # ''b'') 1280 720)"
proof -
  have start: "wrap_computed block_pil studio_session"
    by (simp add: wrap_computed_def studio_session_memo)
  have ok: "session_ok block_pil studio studio_session"
    unfolding studio_session_def by (rule session_ok_new)
  have ab: "fst (wrap_text block_pil studio studio_session (''a'' @ newline # ''b'') ''Arial'' 100 500) = [''a'', ''b'']"
    by (simp add: studio_wrap newline_def split_ws_def is_space_def Let_def)
  have rl: "render_lines block_pil studio initialize_defaults studio_session (''a'' @ newline # ''b'') 1280 =
      [''a'', ''b'']"
    by (simp add: studio_lines newline_def split_ws_def is_space_def Let_def)
  have blank: "\<forall>c\<in>set [CHR '' '', newline, CHR '' '']. is_space c"
    by (simp add: newline_def is_space_def)
  have none: "\<forall>c\<in>set ([]::string). is_space c" by simp
  have fs: "font_size initialize_defaults = 100" by (simp add: initialize_defaults_def)
  show ?thesis
    using wrap_text_drops_blank_paragraphs[OF start, of studio "''Arial''" 100 500
        "[CHR '' '', newline, CHR '' '']" "[]" "''a''" "''b''" initialize_defaults 1280
        "new_image (1280, 720) transparent" 720 "[]" 1] ab rl blank none ok fs
    by simp
qed

end
